theory Spec2Isabelle
  imports Complex_Main "HOL-Library.AList"
begin

section \<open>JSON values, the encoder and the decoder\<close>

text \<open>
  The catalog is kept in one file, \<^verbatim>\<open>course_catalog.json\<close>, written with
  \<^verbatim>\<open>json.dump(courses, file, indent=4)\<close> and read back with \<^verbatim>\<open>json.load(file)\<close>.
  Both come from the Python standard library, not from the repository, so this section
  models them: the values they exchange, the text the encoder writes and the text the
  decoder accepts.

  A value is what \<^verbatim>\<open>json.load\<close> can return. A Python \<^verbatim>\<open>dict\<close> keeps its keys in
  insertion order, so an object is an association list; in a value that stands for a
  \<^verbatim>\<open>dict\<close> the keys are distinct (\<open>wf_json\<close> below).

  Two limits of the model. A character is one of the 256 values of \<^typ>\<open>char\<close>, read as a
  code point, so strings with code points from 256 on are not covered. Numbers are
  integers: a literal with a fraction or an exponent, and the literals for infinities and
  not-a-number, are rejected by the decoder here although the library accepts them. The
  service writes neither: every field it stores is a string.
\<close>

datatype json =
    JNull
  | JBool bool
  | JInt int
  | JStr string
  | JArr "json list"
  | JObj "(string \<times> json) list"

text \<open>
  The encoder. With \<^verbatim>\<open>indent=4\<close> and the default \<^verbatim>\<open>ensure_ascii=True\<close> the library writes
  every string between double quotes, keeps the printable ASCII characters (32 to 126) other
  than the double quote and the backslash, and escapes the rest: two-character escapes for
  quote, backslash, newline, carriage return, tab, backspace and form feed, and
  \<^verbatim>\<open>\u00xx\<close> with lower-case hexadecimal digits otherwise.
\<close>

abbreviation dquote :: char where "dquote \<equiv> CHR 0x22"
abbreviation backslash :: char where "backslash \<equiv> CHR 0x5C"

definition hex_digit :: "nat \<Rightarrow> char" where
  "hex_digit n = (if n < 10 then char_of (48 + n) else char_of (87 + n))"

definition escape_char :: "char \<Rightarrow> string" where
  "escape_char c =
     (if c = dquote then [backslash, dquote]
      else if c = backslash then [backslash, backslash]
      else if c = CHR 0x0A then [backslash, CHR ''n'']
      else if c = CHR 0x0D then [backslash, CHR ''r'']
      else if c = CHR 0x09 then [backslash, CHR ''t'']
      else if c = CHR 0x08 then [backslash, CHR ''b'']
      else if c = CHR 0x0C then [backslash, CHR ''f'']
      else if 0x20 \<le> (of_char c :: nat) \<and> (of_char c :: nat) \<le> 0x7E then [c]
      else [backslash, CHR ''u'', CHR ''0'', CHR ''0'',
            hex_digit (of_char c div 16), hex_digit (of_char c mod 16)])"

definition encode_basestring_ascii :: "string \<Rightarrow> string" where
  "encode_basestring_ascii s = dquote # concat (map escape_char s) @ [dquote]"

function repr_nat :: "nat \<Rightarrow> string" where
  "repr_nat n = (if n < 10 then [char_of (48 + n)] else repr_nat (n div 10) @ [char_of (48 + n mod 10)])"
  by pat_completeness auto
termination by (relation "measure id") auto

declare repr_nat.simps [simp del]

definition repr_int :: "int \<Rightarrow> string" where
  "repr_int i = (if i < 0 then CHR ''-'' # repr_nat (nat (- i)) else repr_nat (nat i))"

text \<open>
  An empty list is \<^verbatim>\<open>[]\<close> and an empty dictionary \<^verbatim>\<open>{}\<close>. Otherwise every item starts
  on a new line, indented by four spaces for each level of nesting, items are separated by a
  comma, a key and its value by a colon and a space, and the closing bracket is on a line of
  its own at the level of the opening one. \<open>iterencode lvl v\<close> is the text of \<open>v\<close> at nesting
  level \<open>lvl\<close>.
\<close>

definition newline_indent :: "nat \<Rightarrow> string" where
  "newline_indent lvl = CHR 0x0A # replicate (4 * lvl) CHR '' ''"

fun iterencode :: "nat \<Rightarrow> json \<Rightarrow> string"
  and iterencode_list :: "nat \<Rightarrow> json list \<Rightarrow> string"
  and iterencode_dict :: "nat \<Rightarrow> (string \<times> json) list \<Rightarrow> string"
where
  "iterencode lvl JNull = ''null''"
| "iterencode lvl (JBool b) = (if b then ''true'' else ''false'')"
| "iterencode lvl (JInt i) = repr_int i"
| "iterencode lvl (JStr s) = encode_basestring_ascii s"
| "iterencode lvl (JArr []) = ''[]''"
| "iterencode lvl (JArr (x # xs)) =
     ''['' @ newline_indent (Suc lvl) @ iterencode (Suc lvl) x @ iterencode_list (Suc lvl) xs
       @ newline_indent lvl @ '']''"
| "iterencode lvl (JObj []) = ''{}''"
| "iterencode lvl (JObj ((k, v) # kvs)) =
     ''{'' @ newline_indent (Suc lvl) @ encode_basestring_ascii k @ '': '' @ iterencode (Suc lvl) v
       @ iterencode_dict (Suc lvl) kvs @ newline_indent lvl @ ''}''"
| "iterencode_list lvl [] = []"
| "iterencode_list lvl (x # xs) =
     '','' @ newline_indent lvl @ iterencode lvl x @ iterencode_list lvl xs"
| "iterencode_dict lvl [] = []"
| "iterencode_dict lvl ((k, v) # kvs) =
     '','' @ newline_indent lvl @ encode_basestring_ascii k @ '': '' @ iterencode lvl v
       @ iterencode_dict lvl kvs"

definition json_dumps :: "json \<Rightarrow> string" where
  "json_dumps v = iterencode 0 v"


text \<open>
  The decoder. Whitespace is space, tab, line feed and carriage return. Inside a string a
  backslash starts an escape and a raw control character (below 32) is an error.
  \<open>scanstring\<close> takes the text after the opening quote and returns the decoded string and the
  text after the closing quote.
\<close>

definition is_json_ws :: "char \<Rightarrow> bool" where
  "is_json_ws c \<longleftrightarrow> c = CHR '' '' \<or> c = CHR 0x09 \<or> c = CHR 0x0A \<or> c = CHR 0x0D"

definition skip_ws :: "string \<Rightarrow> string" where
  "skip_ws s = dropWhile is_json_ws s"

definition hex_val :: "char \<Rightarrow> nat option" where
  "hex_val c =
     (let n = (of_char c :: nat) in
      if 48 \<le> n \<and> n \<le> 57 then Some (n - 48)
      else if 97 \<le> n \<and> n \<le> 102 then Some (n - 87)
      else if 65 \<le> n \<and> n \<le> 70 then Some (n - 55)
      else None)"

fun decode_uXXXX :: "string \<Rightarrow> nat option" where
  "decode_uXXXX [a, b, c, d] =
     (case (hex_val a, hex_val b, hex_val c, hex_val d) of
        (Some x, Some y, Some z, Some w) \<Rightarrow> Some (((x * 16 + y) * 16 + z) * 16 + w)
      | _ \<Rightarrow> None)"
| "decode_uXXXX _ = None"

definition unescape :: "char \<Rightarrow> char option" where
  "unescape e =
     (if e = dquote then Some dquote
      else if e = backslash then Some backslash
      else if e = CHR ''/'' then Some CHR ''/''
      else if e = CHR ''b'' then Some (CHR 0x08)
      else if e = CHR ''f'' then Some (CHR 0x0C)
      else if e = CHR ''n'' then Some (CHR 0x0A)
      else if e = CHR ''r'' then Some (CHR 0x0D)
      else if e = CHR ''t'' then Some (CHR 0x09)
      else None)"

definition cons_char :: "char \<Rightarrow> (string \<times> string) option \<Rightarrow> (string \<times> string) option" where
  "cons_char c r = map_option (\<lambda>(s, rest). (c # s, rest)) r"

function scanstring :: "string \<Rightarrow> (string \<times> string) option" where
  "scanstring [] = None"
| "scanstring (c # cs) =
     (if c = dquote then Some ([], cs)
      else if c = backslash then
        (case cs of
           [] \<Rightarrow> None
         | e # r \<Rightarrow>
             if e = CHR ''u'' then
               (case decode_uXXXX (take 4 r) of
                  None \<Rightarrow> None
                | Some n \<Rightarrow> if n < 256 then cons_char (char_of n) (scanstring (drop 4 r)) else None)
             else
               (case unescape e of
                  None \<Rightarrow> None
                | Some d \<Rightarrow> cons_char d (scanstring r)))
      else if (of_char c :: nat) < 0x20 then None
      else cons_char c (scanstring cs))"
  by pat_completeness auto
termination by (relation "measure length") auto

definition is_digit :: "char \<Rightarrow> bool" where
  "is_digit c \<longleftrightarrow> 48 \<le> (of_char c :: nat) \<and> (of_char c :: nat) \<le> 57"

definition digits_val :: "string \<Rightarrow> nat" where
  "digits_val ds = foldl (\<lambda>a c. 10 * a + (of_char c - 48)) 0 ds"

definition scan_nat :: "string \<Rightarrow> (nat \<times> string) option" where
  "scan_nat s =
     (case s of
        [] \<Rightarrow> None
      | c # cs \<Rightarrow>
          if c = CHR ''0'' then Some (0, cs)
          else if is_digit c then Some (digits_val (takeWhile is_digit s), dropWhile is_digit s)
          else None)"

definition scan_int :: "string \<Rightarrow> (int \<times> string) option" where
  "scan_int s =
     (case s of
        [] \<Rightarrow> None
      | c # cs \<Rightarrow>
          if c = CHR ''-'' then map_option (\<lambda>(n, r). (- int n, r)) (scan_nat cs)
          else map_option (\<lambda>(n, r). (int n, r)) (scan_nat s))"

text \<open>
  The pairs of an object are put into a dictionary one after the other: a key seen again
  keeps its first position and takes the later value.
\<close>

definition dict_of_pairs :: "(string \<times> json) list \<Rightarrow> (string \<times> json) list" where
  "dict_of_pairs ps = foldl (\<lambda>d (k, v). AList.update k v d) [] ps"

text \<open>
  \<open>scan_once\<close> decodes one value at the head of the text; it is called with the leading
  whitespace already skipped. \<open>scan_array\<close> and \<open>scan_object\<close> decode the items after an
  opening bracket up to the closing one. The three functions call each other, so they carry
  a fuel argument that goes down by one at every call; \<open>json_loads\<close> starts them with more
  fuel than the text has characters, which is always enough (lemma \<open>json_loads_iff\<close>).
  The text must hold one value, with nothing but whitespace around it.
\<close>

fun scan_once :: "nat \<Rightarrow> string \<Rightarrow> (json \<times> string) option"
  and scan_array :: "nat \<Rightarrow> string \<Rightarrow> (json list \<times> string) option"
  and scan_object :: "nat \<Rightarrow> string \<Rightarrow> ((string \<times> json) list \<times> string) option"
where
  "scan_once 0 s = None"
| "scan_once (Suc n) [] = None"
| "scan_once (Suc n) (c # cs) =
     (if c = dquote then map_option (\<lambda>(k, r). (JStr k, r)) (scanstring cs)
      else if c = CHR ''{'' then
        (case skip_ws cs of
           [] \<Rightarrow> None
         | d # ds \<Rightarrow>
             if d = CHR ''}'' then Some (JObj [], ds)
             else if d = dquote then
               map_option (\<lambda>(ps, r). (JObj (dict_of_pairs ps), r)) (scan_object n (d # ds))
             else None)
      else if c = CHR ''['' then
        (case skip_ws cs of
           [] \<Rightarrow> None
         | d # ds \<Rightarrow>
             if d = CHR '']'' then Some (JArr [], ds)
             else map_option (\<lambda>(vs, r). (JArr vs, r)) (scan_array n (d # ds)))
      else if c = CHR ''n'' \<and> take 3 cs = ''ull'' then Some (JNull, drop 3 cs)
      else if c = CHR ''t'' \<and> take 3 cs = ''rue'' then Some (JBool True, drop 3 cs)
      else if c = CHR ''f'' \<and> take 4 cs = ''alse'' then Some (JBool False, drop 4 cs)
      else map_option (\<lambda>(i, r). (JInt i, r)) (scan_int (c # cs)))"
| "scan_array 0 s = None"
| "scan_array (Suc n) s =
     (case scan_once n s of
        None \<Rightarrow> None
      | Some (v, r) \<Rightarrow>
          (case skip_ws r of
             [] \<Rightarrow> None
           | d # ds \<Rightarrow>
               if d = CHR '']'' then Some ([v], ds)
               else if d = CHR '','' then
                 map_option (\<lambda>(vs, r'). (v # vs, r')) (scan_array n (skip_ws ds))
               else None))"
| "scan_object 0 s = None"
| "scan_object (Suc n) s =
     (case s of
        [] \<Rightarrow> None
      | q # s1 \<Rightarrow>
          if q \<noteq> dquote then None
          else
            (case scanstring s1 of
               None \<Rightarrow> None
             | Some (k, r) \<Rightarrow>
                 (case skip_ws r of
                    [] \<Rightarrow> None
                  | c # r1 \<Rightarrow>
                      if c \<noteq> CHR '':'' then None
                      else
                        (case scan_once n (skip_ws r1) of
                           None \<Rightarrow> None
                         | Some (v, r2) \<Rightarrow>
                             (case skip_ws r2 of
                                [] \<Rightarrow> None
                              | d # ds \<Rightarrow>
                                  if d = CHR ''}'' then Some ([(k, v)], ds)
                                  else if d = CHR '','' then
                                    map_option (\<lambda>(ps, r'). ((k, v) # ps, r'))
                                      (scan_object n (skip_ws ds))
                                  else None)))))"

definition json_loads :: "string \<Rightarrow> json option" where
  "json_loads s =
     (case scan_once (Suc (length s)) (skip_ws s) of
        None \<Rightarrow> None
      | Some (v, r) \<Rightarrow> if skip_ws r = [] then Some v else None)"

section \<open>The course catalog service\<close>

text \<open>
  The service of \<^verbatim>\<open>app.py\<close>: a Flask application whose handlers read and rewrite the
  course file, count requests and errors in two module-level dictionaries, open one tracing
  span each, and write structured log records. What a handler touches is gathered in the
  record \<open>world\<close> below; a handler takes the request and the world and returns its response
  (or the exception that leaves it) with the new world.

  Exceptions are values of \<open>error\<close>. The course file is absent, or present but impossible
  to open (a directory at that path, for instance), or present with some text.
\<close>

datatype error = OSError | JSONDecodeError | TypeError | KeyError | AttributeError

datatype file_state = NoFile | Unopenable | Contents string

text \<open>
  A span has a name, a kind, attributes (a dictionary: setting a key again overwrites it)
  and events. A log record has a level and the dictionary passed to the logger. Attribute
  and log values are strings, integers or times. \<^verbatim>\<open>time.time()\<close> returns a float; times are
  modelled as real numbers, which keeps the sign of a difference.
\<close>

datatype attr = AStr string | AInt int | AFloat real | AOther json

datatype span_kind = INTERNAL | SERVER

record span =
  span_name :: string
  kind :: span_kind
  attributes :: "(string \<times> attr) list"
  events :: "string list"

datatype log_level = INFO | WARNING | ERROR

record log_record =
  level :: log_level
  message :: "(string \<times> attr) list"

text \<open>
  Of the request the handlers read the method, the URL, the remote address and the form.
  \<^verbatim>\<open>request.form.get(k, '')\<close> returns the first value sent for \<open>k\<close>, so the form is an
  association list. The remote address is taken to be known. A response is a rendered
  template with its arguments, a redirect, or a body with a status code.
\<close>

record request =
  request_method :: string
  url :: string
  remote_addr :: string
  form :: "(string \<times> string) list"

datatype response =
    Template string "(string \<times> json) list"
  | Redirect string
  | Body string nat

text \<open>
  The world: the course file; \<^verbatim>\<open>requests_count\<close> and \<^verbatim>\<open>error_count\<close>, which are
  \<^verbatim>\<open>defaultdict(int)\<close> and therefore total functions that start at zero; the spans that
  have been closed and the log records that have been written, oldest first; the flashed
  messages; and the clock, given as the sequence of readings that successive calls of
  \<^verbatim>\<open>time.time()\<close> return, with the number of calls made so far.

  Only what the handlers themselves do is modelled. The spans that the automatic Flask
  instrumentation adds around every request, and the export of closed spans, are not.
\<close>

record world =
  course_file :: file_state
  requests_count :: "string \<Rightarrow> int"
  error_count :: "string \<Rightarrow> int"
  finished_spans :: "span list"
  app_log :: "log_record list"
  flashes :: "(string \<times> string) list"
  clock :: "nat \<Rightarrow> real"
  ticks :: nat

text \<open>
  \<^verbatim>\<open>load_courses\<close> (lines 38-43) and \<^verbatim>\<open>save_courses\<close> (lines 46-51). Opening for
  writing truncates the file or creates it. \<open>dump_courses\<close> is the pair of lines
  \<^verbatim>\<open>with open(COURSE_FILE, 'w') as file: json.dump(..., file, indent=4)\<close> that
  \<^verbatim>\<open>save_courses\<close> (lines 50-51) and \<^verbatim>\<open>delete_course\<close> (lines 147-148) share: it
  replaces the whole content of the file.
\<close>

definition os_path_exists :: "file_state \<Rightarrow> bool" where
  "os_path_exists f \<longleftrightarrow> f \<noteq> NoFile"

definition open_read :: "file_state \<Rightarrow> error + string" where
  "open_read f = (case f of Contents s \<Rightarrow> Inr s | _ \<Rightarrow> Inl OSError)"

definition open_write :: "file_state \<Rightarrow> error + file_state" where
  "open_write f = (case f of Unopenable \<Rightarrow> Inl OSError | _ \<Rightarrow> Inr (Contents []))"

definition json_load :: "string \<Rightarrow> error + json" where
  "json_load s = (case json_loads s of None \<Rightarrow> Inl JSONDecodeError | Some v \<Rightarrow> Inr v)"

definition load_courses :: "world \<Rightarrow> error + json" where
  "load_courses w =
     (if \<not> os_path_exists (course_file w) then Inr (JArr [])
      else case open_read (course_file w) of
             Inl e \<Rightarrow> Inl e
           | Inr s \<Rightarrow> json_load s)"

definition dump_courses :: "json \<Rightarrow> world \<Rightarrow> (error + unit) \<times> world" where
  "dump_courses courses w =
     (case open_write (course_file w) of
        Inl e \<Rightarrow> (Inl e, w)
      | Inr _ \<Rightarrow> (Inr (), w\<lparr>course_file := Contents (json_dumps courses)\<rparr>))"

definition py_append :: "json \<Rightarrow> json \<Rightarrow> error + json" where
  "py_append xs x = (case xs of JArr vs \<Rightarrow> Inr (JArr (vs @ [x])) | _ \<Rightarrow> Inl AttributeError)"

definition save_courses :: "json \<Rightarrow> world \<Rightarrow> (error + unit) \<times> world" where
  "save_courses data w =
     (case load_courses w of
        Inl e \<Rightarrow> (Inl e, w)
      | Inr courses \<Rightarrow>
          (case py_append courses data of
             Inl e \<Rightarrow> (Inl e, w)
           | Inr courses' \<Rightarrow> dump_courses courses' w))"

text \<open>
  \<^verbatim>\<open>json.load\<close> returns whatever value the file holds, not necessarily a list of
  dictionaries, so the operations the handlers apply to it can raise: iterating, indexing
  with a string key, taking the length, testing for truth.
\<close>

definition py_iter :: "json \<Rightarrow> error + json list" where
  "py_iter v =
     (case v of
        JArr xs \<Rightarrow> Inr xs
      | JObj kvs \<Rightarrow> Inr (map (\<lambda>kv. JStr (fst kv)) kvs)
      | JStr s \<Rightarrow> Inr (map (\<lambda>c. JStr [c]) s)
      | _ \<Rightarrow> Inl TypeError)"

definition py_getitem :: "json \<Rightarrow> string \<Rightarrow> error + json" where
  "py_getitem v k =
     (case v of
        JObj kvs \<Rightarrow> (case map_of kvs k of None \<Rightarrow> Inl KeyError | Some x \<Rightarrow> Inr x)
      | _ \<Rightarrow> Inl TypeError)"

definition py_len :: "json \<Rightarrow> error + nat" where
  "py_len v =
     (case v of
        JArr xs \<Rightarrow> Inr (length xs)
      | JObj kvs \<Rightarrow> Inr (length kvs)
      | JStr s \<Rightarrow> Inr (length s)
      | _ \<Rightarrow> Inl TypeError)"

definition py_truthy :: "json \<Rightarrow> bool" where
  "py_truthy v =
     (case v of
        JNull \<Rightarrow> False
      | JBool b \<Rightarrow> b
      | JInt i \<Rightarrow> i \<noteq> 0
      | JStr s \<Rightarrow> s \<noteq> []
      | JArr xs \<Rightarrow> xs \<noteq> []
      | JObj kvs \<Rightarrow> kvs \<noteq> [])"

definition attr_of_json :: "json \<Rightarrow> attr" where
  "attr_of_json v = (case v of JStr s \<Rightarrow> AStr s | JInt i \<Rightarrow> AInt i | _ \<Rightarrow> AOther v)"

text \<open>
  \<^verbatim>\<open>str.strip()\<close> removes leading and trailing whitespace; among the first 256 code
  points these are 9 to 13, 28 to 32, 133 and 160.
\<close>

definition is_space :: "char \<Rightarrow> bool" where
  "is_space c \<longleftrightarrow>
     (let n = (of_char c :: nat)
      in (9 \<le> n \<and> n \<le> 13) \<or> (28 \<le> n \<and> n \<le> 32) \<or> n = 0x85 \<or> n = 0xA0)"

definition strip :: "string \<Rightarrow> string" where
  "strip s = rev (dropWhile is_space (rev (dropWhile is_space s)))"

definition form_get :: "request \<Rightarrow> string \<Rightarrow> string \<Rightarrow> string" where
  "form_get rq k dflt = (case map_of (form rq) k of None \<Rightarrow> dflt | Some v \<Rightarrow> v)"

text \<open>
  The telemetry primitives. \<^verbatim>\<open>with tracer.start_as_current_span(...) as span\<close> runs its
  body with a fresh span and closes the span when the body is left, by a return or by an
  exception; in the second case the exception is first recorded on the span as an event.
  The logger is set to level INFO, so \<^verbatim>\<open>logger.info\<close>, \<^verbatim>\<open>logger.warning\<close> and
  \<^verbatim>\<open>logger.error\<close> each write one record. \<open>increment k d\<close> is \<^verbatim>\<open>d[k] += 1\<close>.
\<close>

definition time_time :: "world \<Rightarrow> real \<times> world" where
  "time_time w = (clock w (ticks w), w\<lparr>ticks := Suc (ticks w)\<rparr>)"

definition set_attribute :: "string \<Rightarrow> attr \<Rightarrow> span \<Rightarrow> span" where
  "set_attribute k v sp = sp\<lparr>attributes := AList.update k v (attributes sp)\<rparr>"

definition add_event :: "string \<Rightarrow> span \<Rightarrow> span" where
  "add_event e sp = sp\<lparr>events := events sp @ [e]\<rparr>"

definition start_as_current_span ::
  "string \<Rightarrow> span_kind \<Rightarrow> (span \<Rightarrow> world \<Rightarrow> (error + response) \<times> span \<times> world)
     \<Rightarrow> world \<Rightarrow> (error + response) \<times> world" where
  "start_as_current_span nm k body w =
     (case body \<lparr>span_name = nm, kind = k, attributes = [], events = []\<rparr> w of
        (res, sp, w') \<Rightarrow>
          (res, w'\<lparr>finished_spans := finished_spans w' @
                     [case res of Inl e \<Rightarrow> add_event ''exception'' sp | Inr r \<Rightarrow> sp]\<rparr>))"

definition logger_log :: "log_level \<Rightarrow> (string \<times> attr) list \<Rightarrow> world \<Rightarrow> world" where
  "logger_log lv fs w = w\<lparr>app_log := app_log w @ [\<lparr>level = lv, message = fs\<rparr>]\<rparr>"

definition flash :: "string \<Rightarrow> string \<Rightarrow> world \<Rightarrow> world" where
  "flash msg category w = w\<lparr>flashes := flashes w @ [(msg, category)]\<rparr>"

definition increment :: "string \<Rightarrow> (string \<Rightarrow> int) \<Rightarrow> (string \<Rightarrow> int)" where
  "increment k d = d(k := d k + 1)"

text \<open>
  The handlers, in the order of the source. The helper definitions \<open>catalog_rendered\<close>,
  \<open>add_validation_failed\<close>, \<open>add_saved\<close>, \<open>details_not_found\<close> and \<open>details_found\<close> are the
  branches of the handler that follows them; \<^verbatim>\<open>url_for('course_catalog')\<close> is
  \<^verbatim>\<open>/catalog\<close>.
\<close>

definition index :: "world \<Rightarrow> (error + response) \<times> world" where
  "index w = (Inr (Template ''index.html'' []), w)"

definition catalog_rendered ::
  "real \<Rightarrow> json \<Rightarrow> nat \<Rightarrow> span \<Rightarrow> world \<Rightarrow> (error + response) \<times> span \<times> world" where
  "catalog_rendered start_time courses n sp5 w =
     (let sp6 = set_attribute ''total_courses'' (AInt (int n)) sp5
      in case time_time w of (t1, w2) \<Rightarrow>
         let sp7 = set_attribute ''processing_time'' (AFloat (t1 - start_time)) sp6
         in case time_time w2 of (t2, w3) \<Rightarrow>
            (Inr (Template ''course_catalog.html'' [(''courses'', courses)]),
             sp7,
             logger_log INFO
               [(''event'', AStr ''Page Rendered''),
                (''route'', AStr ''/catalog''),
                (''total_courses'', AInt (int n)),
                (''processing_time'', AFloat (t2 - start_time))] w3))"

definition course_catalog :: "request \<Rightarrow> world \<Rightarrow> (error + response) \<times> world" where
  "course_catalog rq w0 =
     (case time_time w0 of (start_time, w1) \<Rightarrow>
        start_as_current_span ''render-course-catalog'' INTERNAL
          (\<lambda>sp0 w.
             let sp1 = set_attribute ''http.method'' (AStr (request_method rq)) sp0;
                 sp2 = set_attribute ''http.url'' (AStr (url rq)) sp1;
                 sp3 = set_attribute ''user.ip'' (AStr (remote_addr rq)) sp2;
                 sp4 = set_attribute ''requests.count'' (AInt (requests_count w ''catalog'')) sp3;
                 sp5 = add_event ''Loading course catalog'' sp4
             in case load_courses w of
                  Inl e \<Rightarrow> (Inl e, sp5, w)
                | Inr courses \<Rightarrow>
                    (case py_len courses of
                       Inl e \<Rightarrow> (Inl e, sp5, w)
                     | Inr n \<Rightarrow> catalog_rendered start_time courses n sp5 w))
          (w1\<lparr>requests_count := increment ''catalog'' (requests_count w1)\<rparr>))"

text \<open>
  \<^verbatim>\<open>add_course\<close> (lines 89-137). \<open>course_of_form\<close> is the dictionary of lines 100-110,
  \<open>py_not_field course k\<close> is \<^verbatim>\<open>not course[k]\<close> of line 112, and \<open>str_field\<close> reads a
  string entry for the log record and the flashed message.
\<close>

definition course_of_form :: "request \<Rightarrow> (string \<times> json) list" where
  "course_of_form rq =
     [(''code'', JStr (strip (form_get rq ''code'' ''''))),
      (''name'', JStr (strip (form_get rq ''name'' ''''))),
      (''instructor'', JStr (strip (form_get rq ''instructor'' ''''))),
      (''semester'', JStr (strip (form_get rq ''semester'' ''''))),
      (''schedule'', JStr (strip (form_get rq ''schedule'' ''''))),
      (''classroom'', JStr (strip (form_get rq ''classroom'' ''''))),
      (''prerequisites'', JStr (strip (form_get rq ''prerequisites'' ''''))),
      (''grading'', JStr (strip (form_get rq ''grading'' ''''))),
      (''description'', JStr (strip (form_get rq ''description'' '''')))]"

definition py_not_field :: "(string \<times> json) list \<Rightarrow> string \<Rightarrow> bool" where
  "py_not_field course k = (case map_of course k of None \<Rightarrow> True | Some v \<Rightarrow> \<not> py_truthy v)"

definition str_field :: "(string \<times> json) list \<Rightarrow> string \<Rightarrow> string" where
  "str_field course k = (case map_of course k of Some (JStr s) \<Rightarrow> s | _ \<Rightarrow> [])"

definition add_validation_failed ::
  "span \<Rightarrow> world \<Rightarrow> (error + response) \<times> span \<times> world" where
  "add_validation_failed sp4 w =
     (let w2 = w\<lparr>error_count := increment ''add_course'' (error_count w)\<rparr>;
          sp5 = add_event ''Validation failed: Missing required fields'' sp4;
          sp6 = set_attribute ''error_count'' (AInt (error_count w2 ''add_course'')) sp5;
          w3 = logger_log WARNING
                 [(''event'', AStr ''Form Validation Error''),
                  (''route'', AStr ''/add_course''),
                  (''error'', AStr ''Missing required fields'')] w2;
          w4 = flash ''Course Code, Course Name and Instructor are required!'' ''error'' w3
      in (Inr (Template ''add_course.html'' []), sp6, w4))"

definition add_saved ::
  "real \<Rightarrow> (string \<times> json) list \<Rightarrow> span \<Rightarrow> world \<Rightarrow> (error + response) \<times> span \<times> world" where
  "add_saved start_time course sp4 w2 =
     (let sp5 = add_event ''Course saved successfully'' sp4
      in case time_time w2 of (t1, w3) \<Rightarrow>
         let sp6 = set_attribute ''processing_time'' (AFloat (t1 - start_time)) sp5;
             w4 = logger_log INFO
                    [(''event'', AStr ''Course Added''),
                     (''course_code'', AStr (str_field course ''code'')),
                     (''course_name'', AStr (str_field course ''name''))] w3;
             w5 = flash (''Course '' @ [CHR 0x27] @ str_field course ''name'' @ [CHR 0x27]
                           @ '' added successfully!'') ''success'' w4
         in (Inr (Redirect ''/catalog''), sp6, w5))"

definition add_course :: "request \<Rightarrow> world \<Rightarrow> (error + response) \<times> world" where
  "add_course rq w0 =
     (case time_time w0 of (start_time, w1) \<Rightarrow>
        start_as_current_span ''add-course'' INTERNAL
          (\<lambda>sp0 w.
             let sp1 = set_attribute ''http.method'' (AStr (request_method rq)) sp0;
                 sp2 = set_attribute ''http.url'' (AStr (url rq)) sp1;
                 sp3 = set_attribute ''user.ip'' (AStr (remote_addr rq)) sp2;
                 sp4 = set_attribute ''requests.count'' (AInt (requests_count w ''add_course'')) sp3
             in if request_method rq = ''POST'' then
                  let course = course_of_form rq
                  in if py_not_field course ''code'' \<or> py_not_field course ''name''
                        \<or> py_not_field course ''instructor''
                     then add_validation_failed sp4 w
                     else
                       (case save_courses (JObj course) w of
                          (Inl e, w2) \<Rightarrow> (Inl e, sp4, w2)
                        | (Inr u, w2) \<Rightarrow> add_saved start_time course sp4 w2)
                else (Inr (Template ''add_course.html'' []), sp4, w))
          (w1\<lparr>requests_count := increment ''add_course'' (requests_count w1)\<rparr>))"

text \<open>
  \<^verbatim>\<open>delete_course\<close> (lines 142-151). The list comprehension of line 145 is evaluated in
  full before the file is opened, so an exception in it leaves the file as it was.
\<close>

fun keep_other_codes :: "string \<Rightarrow> json list \<Rightarrow> error + json list" where
  "keep_other_codes code [] = Inr []"
| "keep_other_codes code (course # rest) =
     (case py_getitem course ''code'' of
        Inl e \<Rightarrow> Inl e
      | Inr v \<Rightarrow>
          (case keep_other_codes code rest of
             Inl e \<Rightarrow> Inl e
           | Inr kept \<Rightarrow> Inr (if v \<noteq> JStr code then course # kept else kept)))"

definition delete_course :: "string \<Rightarrow> world \<Rightarrow> (error + response) \<times> world" where
  "delete_course code w =
     (case load_courses w of
        Inl e \<Rightarrow> (Inl e, w)
      | Inr courses \<Rightarrow>
          (case py_iter courses of
             Inl e \<Rightarrow> (Inl e, w)
           | Inr items \<Rightarrow>
               (case keep_other_codes code items of
                  Inl e \<Rightarrow> (Inl e, w)
                | Inr updated_courses \<Rightarrow>
                    (case dump_courses (JArr updated_courses) w of
                       (Inl e, w1) \<Rightarrow> (Inl e, w1)
                     | (Inr u, w1) \<Rightarrow>
                         (Inr (Redirect ''/catalog''),
                          flash (''Course with code '' @ [CHR 0x27] @ code @ [CHR 0x27]
                                   @ '' deleted successfully!'') ''success'' w1)))))"

text \<open>
  \<^verbatim>\<open>course_details\<close> (lines 155-190). \<^verbatim>\<open>next(generator, None)\<close> of line 165 stops at the
  first course whose code is the one asked for and does not look at the courses after it.
\<close>

fun next_with_code :: "string \<Rightarrow> json list \<Rightarrow> error + json option" where
  "next_with_code code [] = Inr None"
| "next_with_code code (course # rest) =
     (case py_getitem course ''code'' of
        Inl e \<Rightarrow> Inl e
      | Inr v \<Rightarrow> if v = JStr code then Inr (Some course) else next_with_code code rest)"

definition details_not_found ::
  "string \<Rightarrow> span \<Rightarrow> world \<Rightarrow> (error + response) \<times> span \<times> world" where
  "details_not_found code sp4 w =
     (let w2 = w\<lparr>error_count := increment ''course_details'' (error_count w)\<rparr>;
          sp5 = add_event ''Course not found'' sp4;
          sp6 = set_attribute ''error_count'' (AInt (error_count w2 ''course_details'')) sp5;
          w3 = logger_log ERROR
                 [(''event'', AStr ''Course Not Found''),
                  (''route'', AStr ''/course/<code>''),
                  (''course_code'', AStr code)] w2;
          w4 = flash (''No course found with code '' @ [CHR 0x27] @ code @ [CHR 0x27] @ ''.'')
                 ''error'' w3
      in (Inr (Redirect ''/catalog''), sp6, w4))"

definition details_found ::
  "real \<Rightarrow> json \<Rightarrow> span \<Rightarrow> world \<Rightarrow> (error + response) \<times> span \<times> world" where
  "details_found start_time course sp4 w =
     (let sp5 = add_event ''Course details rendered successfully'' sp4
      in case time_time w of (t1, w2) \<Rightarrow>
         let sp6 = set_attribute ''processing_time'' (AFloat (t1 - start_time)) sp5
         in case py_getitem course ''code'' of
              Inl e \<Rightarrow> (Inl e, sp6, w2)
            | Inr v \<Rightarrow>
                (case time_time w2 of (t2, w3) \<Rightarrow>
                   (Inr (Template ''course_details.html'' [(''course'', course)]),
                    sp6,
                    logger_log INFO
                      [(''event'', AStr ''Course Details Rendered''),
                       (''course_code'', attr_of_json v),
                       (''processing_time'', AFloat (t2 - start_time))] w3)))"

definition course_details :: "string \<Rightarrow> request \<Rightarrow> world \<Rightarrow> (error + response) \<times> world" where
  "course_details code rq w0 =
     (case time_time w0 of (start_time, w1) \<Rightarrow>
        start_as_current_span ''view-course-details'' INTERNAL
          (\<lambda>sp0 w.
             let sp1 = set_attribute ''http.method'' (AStr (request_method rq)) sp0;
                 sp2 = set_attribute ''http.url'' (AStr (url rq)) sp1;
                 sp3 = set_attribute ''user.ip'' (AStr (remote_addr rq)) sp2;
                 sp4 = set_attribute ''course_code'' (AStr code) sp3
             in case load_courses w of
                  Inl e \<Rightarrow> (Inl e, sp4, w)
                | Inr courses \<Rightarrow>
                    (case py_iter courses of
                       Inl e \<Rightarrow> (Inl e, sp4, w)
                     | Inr items \<Rightarrow>
                         (case next_with_code code items of
                            Inl e \<Rightarrow> (Inl e, sp4, w)
                          | Inr None \<Rightarrow> details_not_found code sp4 w
                          | Inr (Some course) \<Rightarrow>
                              if \<not> py_truthy course then details_not_found code sp4 w
                              else details_found start_time course sp4 w)))
          w1)"

definition manual_trace :: "request \<Rightarrow> world \<Rightarrow> (error + response) \<times> world" where
  "manual_trace rq w =
     start_as_current_span ''manual-span'' SERVER
       (\<lambda>sp0 w.
          let sp1 = set_attribute ''http.method'' (AStr (request_method rq)) sp0;
              sp2 = set_attribute ''http.url'' (AStr (url rq)) sp1;
              sp3 = add_event ''Processing request'' sp2
          in (Inr (Body ''Manual trace recorded!'' 200), sp3, w))
       w"

definition auto_instrumented :: "world \<Rightarrow> (error + response) \<times> world" where
  "auto_instrumented w = (Inr (Body ''This route is auto-instrumented!'' 200), w)"

section \<open>Auxiliary notions for the proofs\<close>

text \<open>
  \<open>wf_json\<close> says that a value stands for a Python value: the keys of every dictionary in it
  are distinct. \<open>fuel_for\<close> bounds the fuel that decoding the text of a value takes. The
  other two definitions state the induction on values: \<open>value_at E v\<close> says that the decoder
  reads \<open>v\<close> off every text that starts with \<open>E\<close>.
\<close>

definition no_digit_ahead :: "string \<Rightarrow> bool" where
  "no_digit_ahead s \<longleftrightarrow> (case s of [] \<Rightarrow> True | c # _ \<Rightarrow> \<not> is_digit c)"

fun wf_json :: "json \<Rightarrow> bool"
  and wf_json_list :: "json list \<Rightarrow> bool"
  and wf_json_dict :: "(string \<times> json) list \<Rightarrow> bool"
where
  "wf_json (JArr xs) = wf_json_list xs"
| "wf_json (JObj kvs) = (distinct (map fst kvs) \<and> wf_json_dict kvs)"
| "wf_json _ = True"
| "wf_json_list [] = True"
| "wf_json_list (x # xs) = (wf_json x \<and> wf_json_list xs)"
| "wf_json_dict [] = True"
| "wf_json_dict ((k, v) # kvs) = (wf_json v \<and> wf_json_dict kvs)"

fun fuel_for :: "json \<Rightarrow> nat"
  and fuel_list :: "json list \<Rightarrow> nat"
  and fuel_dict :: "(string \<times> json) list \<Rightarrow> nat"
where
  "fuel_for (JArr xs) = Suc (fuel_list xs)"
| "fuel_for (JObj kvs) = Suc (fuel_dict kvs)"
| "fuel_for _ = 1"
| "fuel_list [] = 0"
| "fuel_list (x # xs) = Suc (fuel_for x + fuel_list xs)"
| "fuel_dict [] = 0"
| "fuel_dict ((k, v) # kvs) = Suc (fuel_for v + fuel_dict kvs)"

definition value_at :: "string \<Rightarrow> json \<Rightarrow> bool" where
  "value_at E v \<longleftrightarrow>
     (\<forall>m r. fuel_for v \<le> m \<longrightarrow> no_digit_ahead r \<longrightarrow> scan_once m (E @ r) = Some (v, r))"

text \<open>
  The notions the claims are stated with. A stored record is a dictionary with a
  \<^verbatim>\<open>code\<close> entry. \<open>append_sequentially\<close> calls \<^verbatim>\<open>save_courses\<close> on each record of a list
  in turn and stops at the first exception.
\<close>

definition code_of :: "json \<Rightarrow> json option" where
  "code_of x = (case x of JObj kvs \<Rightarrow> map_of kvs ''code'' | _ \<Rightarrow> None)"

definition has_code :: "json \<Rightarrow> bool" where
  "has_code x \<longleftrightarrow> code_of x \<noteq> None"

fun append_sequentially :: "json list \<Rightarrow> world \<Rightarrow> (error + unit) \<times> world" where
  "append_sequentially [] w = (Inr (), w)"
| "append_sequentially (r # rs) w =
     (case save_courses r w of
        (Inl e, w') \<Rightarrow> (Inl e, w')
      | (Inr u, w') \<Rightarrow> append_sequentially rs w')"

text \<open>
  Sample states and requests: a fresh process without a course file, the same with three
  stored courses (one code stored twice), a GET, a valid submission whose code has blanks
  around it, and a submission whose name is blank.
\<close>

definition w_init :: world where
  "w_init = \<lparr>course_file = NoFile, requests_count = (\<lambda>k. 0), error_count = (\<lambda>k. 0),
     finished_spans = [], app_log = [], flashes = [], clock = (\<lambda>n. real n), ticks = 0\<rparr>"

definition cs101 :: json where
  "cs101 = JObj [(''code'', JStr ''CS101''), (''name'', JStr ''Intro''),
     (''instructor'', JStr ''Dr. X''), (''semester'', JStr []), (''schedule'', JStr []),
     (''classroom'', JStr []), (''prerequisites'', JStr []), (''grading'', JStr []),
     (''description'', JStr [])]"

definition ma102 :: json where
  "ma102 = JObj [(''code'', JStr ''MA102''), (''name'', JStr ''Calculus''),
     (''instructor'', JStr ''Dr. Y''), (''semester'', JStr ''Fall''), (''schedule'', JStr []),
     (''classroom'', JStr []), (''prerequisites'', JStr []), (''grading'', JStr []),
     (''description'', JStr [])]"

definition w_two :: world where
  "w_two = w_init\<lparr>course_file := Contents (json_dumps (JArr [cs101, ma102, cs101]))\<rparr>"

definition rq_get :: request where
  "rq_get = \<lparr>request_method = ''GET'', url = ''http://localhost:5000/catalog'',
     remote_addr = ''127.0.0.1'', form = []\<rparr>"

definition rq_post :: request where
  "rq_post = \<lparr>request_method = ''POST'', url = ''http://localhost:5000/add_course'',
     remote_addr = ''127.0.0.1'',
     form = [(''code'', ''  CS101 ''), (''name'', ''Intro''), (''instructor'', ''Dr. X'')]\<rparr>"

definition rq_blank :: request where
  "rq_blank = \<lparr>request_method = ''POST'', url = ''http://localhost:5000/add_course'',
     remote_addr = ''127.0.0.1'',
     form = [(''code'', ''CS101''), (''name'', ''   ''), (''instructor'', ''Dr. X'')]\<rparr>"

text \<open>
  A form field is missing when it was not sent or holds whitespace only. A string is
  stripped when it neither starts nor ends with whitespace. A store is clean when it loads
  as a list of records all of whose values are stripped strings. \<open>run\<close> applies handlers
  one after the other, whatever they return.
\<close>

definition field_missing :: "request \<Rightarrow> string \<Rightarrow> bool" where
  "field_missing rq k \<longleftrightarrow>
     (case map_of (form rq) k of None \<Rightarrow> True | Some v \<Rightarrow> list_all is_space v)"

definition stripped :: "string \<Rightarrow> bool" where
  "stripped s \<longleftrightarrow> (case s of [] \<Rightarrow> True | c # cs \<Rightarrow> \<not> is_space c \<and> \<not> is_space (last s))"

definition stripped_value :: "json \<Rightarrow> bool" where
  "stripped_value v \<longleftrightarrow> (case v of JStr s \<Rightarrow> stripped s | _ \<Rightarrow> False)"

definition clean_course :: "json \<Rightarrow> bool" where
  "clean_course x \<longleftrightarrow>
     (case x of
        JObj kvs \<Rightarrow> map_of kvs ''code'' \<noteq> None \<and> list_all (\<lambda>kv. stripped_value (snd kv)) kvs
      | _ \<Rightarrow> False)"

definition clean_store :: "world \<Rightarrow> bool" where
  "clean_store w \<longleftrightarrow>
     (case load_courses w of Inr (JArr cs) \<Rightarrow> list_all clean_course cs | _ \<Rightarrow> False)"

datatype operation =
    Index
  | Catalog request
  | AddCourse request
  | DeleteCourse string
  | CourseDetails string request
  | ManualTrace request
  | AutoInstrumented

fun handle :: "operation \<Rightarrow> world \<Rightarrow> (error + response) \<times> world" where
  "handle Index w = index w"
| "handle (Catalog rq) w = course_catalog rq w"
| "handle (AddCourse rq) w = add_course rq w"
| "handle (DeleteCourse code) w = delete_course code w"
| "handle (CourseDetails code rq) w = course_details code rq w"
| "handle (ManualTrace rq) w = manual_trace rq w"
| "handle AutoInstrumented w = auto_instrumented w"

fun run :: "operation list \<Rightarrow> world \<Rightarrow> world" where
  "run [] w = w"
| "run (x # xs) w = run xs (snd (handle x w))"

text \<open>
  \<open>last_span\<close> is the span closed last; it is used only after a handler that closes one.
  \<open>appended_one xs ys\<close> says that \<open>ys\<close> is \<open>xs\<close> with exactly one element added at the end.
  \<open>one_log_one_timed_span\<close> and \<open>required_attributes\<close> are claims C4 and C9 as they are
  worded; \<open>clock_monotone\<close> says that the clock does not run backwards.
\<close>

definition span_attr :: "span \<Rightarrow> string \<Rightarrow> attr option" where
  "span_attr sp k = map_of (attributes sp) k"

definition last_span :: "world \<Rightarrow> span" where
  "last_span w = last (finished_spans w)"

definition appended_one :: "'a list \<Rightarrow> 'a list \<Rightarrow> bool" where
  "appended_one xs ys \<longleftrightarrow> length ys = Suc (length xs) \<and> take (length xs) ys = xs"

definition elapsed_nonneg :: "span \<Rightarrow> bool" where
  "elapsed_nonneg sp \<longleftrightarrow>
     (case span_attr sp ''processing_time'' of Some (AFloat t) \<Rightarrow> 0 \<le> t | _ \<Rightarrow> False)"

definition one_log_one_timed_span :: "world \<Rightarrow> world \<Rightarrow> bool" where
  "one_log_one_timed_span w w' \<longleftrightarrow>
     appended_one (app_log w) (app_log w') \<and> appended_one (finished_spans w) (finished_spans w')
     \<and> elapsed_nonneg (last_span w')"

definition required_attributes :: "span \<Rightarrow> bool" where
  "required_attributes sp \<longleftrightarrow>
     span_attr sp ''http.method'' \<noteq> None \<and> span_attr sp ''http.url'' \<noteq> None
     \<and> span_attr sp ''user.ip'' \<noteq> None
     \<and> (span_attr sp ''requests.count'' \<noteq> None \<or> span_attr sp ''error_count'' \<noteq> None)"

definition clock_monotone :: "world \<Rightarrow> bool" where
  "clock_monotone w \<longleftrightarrow> (\<forall>i. clock w i \<le> clock w (Suc i))"

definition early_key :: "string \<Rightarrow> bool" where
  "early_key k \<longleftrightarrow> k \<noteq> ''processing_time'' \<and> k \<noteq> ''total_courses'' \<and> k \<noteq> ''error_count''"

section \<open>The decoder inverts the encoder\<close>

lemma hex_val_hex_digit: "n < 16 \<Longrightarrow> hex_val (hex_digit n) = Some n"
  by (simp add: hex_val_def hex_digit_def Let_def)

lemma cons_char_Some [simp]: "cons_char c (Some (s, r)) = Some (c # s, r)"
  by (simp add: cons_char_def)

lemma hex_val_zero: "hex_val CHR ''0'' = Some 0"
  by (simp add: hex_val_def)

lemma decode_uXXXX_hex:
  assumes "n < 256"
  shows "decode_uXXXX [CHR ''0'', CHR ''0'', hex_digit (n div 16), hex_digit (n mod 16)] = Some n"
proof -
  from assms have "n < 16 * 16" by simp
  then have "n div 16 < 16" by (simp only: less_mult_imp_div_less)
  then have "hex_val (hex_digit (n div 16)) = Some (n div 16)" by (rule hex_val_hex_digit)
  moreover have "hex_val (hex_digit (n mod 16)) = Some (n mod 16)"
    by (rule hex_val_hex_digit) simp
  ultimately show ?thesis by (simp add: hex_val_zero)
qed

lemma scanstring_escape_char:
  "scanstring (escape_char c @ s) = cons_char c (scanstring s)"
proof -
  have "decode_uXXXX [CHR ''0'', CHR ''0'', hex_digit (of_char c div 16), hex_digit (of_char c mod 16)]
          = Some (of_char c)"
    by (rule decode_uXXXX_hex) simp
  then show ?thesis
    by (auto simp add: escape_char_def unescape_def)
qed

lemma scanstring_encoded:
  "scanstring (concat (map escape_char s) @ dquote # rest) = Some (s, rest)"
  by (induction s) (simp_all add: scanstring_escape_char)

lemma char_of_48: "char_of (48::nat) = CHR ''0''"
  by (simp add: char_of_eq_iff take_bit_eq_mod)

lemma is_digit_char_of: "(d::nat) < 10 \<Longrightarrow> is_digit (char_of (48 + d))"
  by (simp add: is_digit_def)

lemma repr_nat_digits: "list_all is_digit (repr_nat n)"
  by (induction n rule: repr_nat.induct) (subst repr_nat.simps, simp add: is_digit_char_of)

lemma repr_nat_val: "digits_val (repr_nat n) = n"
proof (induction n rule: repr_nat.induct)
  case (1 n)
  show ?case
  proof (cases "n < 10")
    case True
    then show ?thesis by (subst repr_nat.simps) (simp add: digits_val_def)
  next
    case False
    with 1 have "digits_val (repr_nat (n div 10)) = n div 10" by simp
    with False show ?thesis
      by (subst repr_nat.simps) (simp add: digits_val_def)
  qed
qed

lemma repr_nat_hd: "repr_nat n \<noteq> [] \<and> (n \<noteq> 0 \<longrightarrow> hd (repr_nat n) \<noteq> CHR ''0'')"
proof (induction n rule: repr_nat.induct)
  case (1 n)
  show ?case
  proof (cases "n < 10")
    case True
    then show ?thesis by (subst (1 2) repr_nat.simps) (auto simp: char_of_eq_iff take_bit_eq_mod)
  next
    case False
    with 1 show ?thesis
      by (subst (1 2) repr_nat.simps) auto
  qed
qed

lemma takeWhile_digits:
  "list_all is_digit ds \<Longrightarrow> no_digit_ahead rest \<Longrightarrow>
   takeWhile is_digit (ds @ rest) = ds \<and> dropWhile is_digit (ds @ rest) = rest"
  by (induction ds) (auto simp: no_digit_ahead_def split: list.splits)

lemma scan_nat_repr:
  assumes "no_digit_ahead rest"
  shows "scan_nat (repr_nat n @ rest) = Some (n, rest)"
proof (cases "n = 0")
  case True
  then show ?thesis by (subst repr_nat.simps) (simp add: scan_nat_def char_of_48)
next
  case False
  obtain c cs where cs: "repr_nat n = c # cs" using repr_nat_hd [of n] by (cases "repr_nat n") auto
  with False repr_nat_hd [of n] have c0: "c \<noteq> CHR ''0''" by auto
  from cs repr_nat_digits [of n] have dc: "is_digit c" by simp
  from takeWhile_digits [OF repr_nat_digits assms, of n]
  have "takeWhile is_digit (c # cs @ rest) = c # cs" "dropWhile is_digit (c # cs @ rest) = rest"
    by (simp_all add: cs)
  with c0 dc repr_nat_val [of n] show ?thesis
    by (simp add: scan_nat_def cs del: takeWhile.simps dropWhile.simps)
qed

lemma repr_nat_not_minus: "hd (repr_nat n) \<noteq> CHR ''-''"
proof -
  obtain c cs where cs: "repr_nat n = c # cs" using repr_nat_hd [of n] by (cases "repr_nat n") auto
  with repr_nat_digits [of n] have "is_digit c" by simp
  then have "c \<noteq> CHR ''-''" by (auto simp: is_digit_def)
  with cs show ?thesis by simp
qed

lemma scan_int_repr:
  assumes "no_digit_ahead rest"
  shows "scan_int (repr_int i @ rest) = Some (i, rest)"
proof (cases "i < 0")
  case True
  then show ?thesis by (simp add: scan_int_def repr_int_def scan_nat_repr [OF assms])
next
  case False
  obtain c cs where cs: "repr_nat (nat i) = c # cs"
    using repr_nat_hd [of "nat i"] by (cases "repr_nat (nat i)") auto
  with repr_nat_not_minus [of "nat i"] have "c \<noteq> CHR ''-''" by simp
  moreover have "scan_nat (c # cs @ rest) = Some (nat i, rest)"
    using scan_nat_repr [OF assms, of "nat i"] by (simp add: cs)
  ultimately show ?thesis using False by (simp add: scan_int_def repr_int_def cs)
qed

lemma skip_ws_newline_indent [simp]: "skip_ws (newline_indent l @ s) = skip_ws s"
proof -
  have "dropWhile is_json_ws (replicate k CHR '' '' @ s) = dropWhile is_json_ws s" for k
    by (induction k) (simp_all add: is_json_ws_def)
  then show ?thesis by (simp add: skip_ws_def newline_indent_def is_json_ws_def)
qed

lemma skip_ws_id: "s \<noteq> [] \<Longrightarrow> \<not> is_json_ws (hd s) \<Longrightarrow> skip_ws (s @ r) = s @ r"
  by (cases s) (simp_all add: skip_ws_def)

lemma skip_ws_Cons: "\<not> is_json_ws c \<Longrightarrow> skip_ws (c # s) = c # s"
  by (simp add: skip_ws_def)

lemma repr_int_hd:
  "repr_int i \<noteq> [] \<and> (hd (repr_int i) = CHR ''-'' \<or> is_digit (hd (repr_int i)))"
proof -
  obtain c cs where cs: "repr_nat (nat \<bar>i\<bar>) = c # cs"
    using repr_nat_hd [of "nat \<bar>i\<bar>"] by (cases "repr_nat (nat \<bar>i\<bar>)") auto
  with repr_nat_digits [of "nat \<bar>i\<bar>"] have "is_digit c" by simp
  with cs show ?thesis by (cases "i < 0") (simp_all add: repr_int_def)
qed

lemma iterencode_hd:
  "iterencode lvl v \<noteq> [] \<and> \<not> is_json_ws (hd (iterencode lvl v))"
proof (cases v)
  case (JInt i)
  with repr_int_hd [of i] show ?thesis by (auto simp: is_json_ws_def is_digit_def)
next
  case (JArr xs)
  then show ?thesis by (cases xs) (simp_all add: is_json_ws_def)
next
  case (JObj kvs)
  then show ?thesis by (cases kvs) (auto simp add: is_json_ws_def)
qed (simp_all add: is_json_ws_def encode_basestring_ascii_def)

lemma skip_ws_iterencode [simp]: "skip_ws (iterencode lvl v @ r) = iterencode lvl v @ r"
  using iterencode_hd [of lvl v] by (simp add: skip_ws_id)

lemma update_fresh: "k \<notin> fst ` set d \<Longrightarrow> AList.update k v d = d @ [(k, v)]"
  by (induction d) auto

lemma foldl_update_distinct:
  "distinct (map fst (d @ ps)) \<Longrightarrow> foldl (\<lambda>d (k, v). AList.update k v d) d ps = d @ ps"
proof (induction ps arbitrary: d)
  case Nil
  then show ?case by simp
next
  case (Cons p ps)
  obtain k v where p: "p = (k, v)" by (cases p)
  from Cons.prems have fresh: "k \<notin> fst ` set d" by (auto simp: p)
  from Cons.prems have "distinct (map fst ((d @ [(k, v)]) @ ps))" by (simp add: p)
  from Cons.IH [OF this] show ?case by (simp add: p update_fresh [OF fresh])
qed

lemma dict_of_pairs_distinct: "distinct (map fst ps) \<Longrightarrow> dict_of_pairs ps = ps"
  using foldl_update_distinct [of "[]" ps] by (simp add: dict_of_pairs_def)

lemma scan_once_int:
  assumes "no_digit_ahead rest"
  shows "scan_once (Suc n) (repr_int i @ rest) = Some (JInt i, rest)"
proof -
  obtain c cs where cs: "repr_int i = c # cs" using repr_int_hd [of i] by (cases "repr_int i") auto
  with repr_int_hd [of i] have "c = CHR ''-'' \<or> is_digit c" by simp
  then have "c \<noteq> dquote" "c \<noteq> CHR ''{''" "c \<noteq> CHR ''[''" "c \<noteq> CHR ''n''" "c \<noteq> CHR ''t''" "c \<noteq> CHR ''f''"
    by (auto simp: is_digit_def)
  moreover have "scan_int (c # cs @ rest) = Some (i, rest)"
    using scan_int_repr [OF assms, of i] by (simp add: cs)
  ultimately show ?thesis by (simp add: cs)
qed

lemma no_digit_ahead_simps [simp]:
  "no_digit_ahead []"
  "no_digit_ahead (newline_indent l @ s)"
  "no_digit_ahead (CHR '','' # s)"
  by (simp_all add: no_digit_ahead_def newline_indent_def is_digit_def)

lemma scan_array_step:
  assumes "value_at E v0" and "fuel_for v0 \<le> m"
  shows "scan_array (Suc m) (E @ newline_indent l @ CHR '']'' # rest) = Some ([v0], rest)"
proof -
  from assms have "scan_once m (E @ newline_indent l @ CHR '']'' # rest)
      = Some (v0, newline_indent l @ CHR '']'' # rest)"
    by (simp add: value_at_def)
  then show ?thesis by (simp add: skip_ws_Cons is_json_ws_def)
qed

lemma scan_array_more:
  assumes "value_at E v0" and "fuel_for v0 \<le> m"
    and "scan_array m (iterencode lvl x @ t) = Some (vs, rest)"
  shows "scan_array (Suc m) (E @ CHR '','' # newline_indent lvl @ iterencode lvl x @ t)
           = Some (v0 # vs, rest)"
proof -
  let ?r = "CHR '','' # newline_indent lvl @ iterencode lvl x @ t"
  from assms have "scan_once m (E @ ?r) = Some (v0, ?r)"
    by (simp add: value_at_def)
  with assms(3) show ?thesis by (simp add: skip_ws_Cons is_json_ws_def)
qed

lemma scan_object_step:
  assumes "value_at E v0" and "fuel_for v0 \<le> m" and "E \<noteq> []" and "\<not> is_json_ws (hd E)"
  shows "scan_object (Suc m)
           (encode_basestring_ascii k @ '': '' @ E @ newline_indent l @ CHR ''}'' # rest)
         = Some ([(k, v0)], rest)"
proof -
  from assms have "scan_once m (E @ newline_indent l @ CHR ''}'' # rest)
      = Some (v0, newline_indent l @ CHR ''}'' # rest)"
    by (simp add: value_at_def)
  moreover have "skip_ws (CHR '' '' # E @ newline_indent l @ CHR ''}'' # rest)
      = E @ newline_indent l @ CHR ''}'' # rest"
    using skip_ws_id [OF assms(3,4)] by (simp add: skip_ws_def is_json_ws_def)
  ultimately show ?thesis
    by (simp add: encode_basestring_ascii_def scanstring_encoded skip_ws_Cons is_json_ws_def)
qed

lemma scan_object_more:
  assumes "value_at E v0" and "fuel_for v0 \<le> m" and "E \<noteq> []" and "\<not> is_json_ws (hd E)"
    and "scan_object m (encode_basestring_ascii k' @ t) = Some (ps, rest)"
  shows "scan_object (Suc m)
           (encode_basestring_ascii k @ '': '' @ E @ CHR '','' # newline_indent lvl
              @ encode_basestring_ascii k' @ t)
         = Some ((k, v0) # ps, rest)"
proof -
  let ?r = "CHR '','' # newline_indent lvl @ encode_basestring_ascii k' @ t"
  from assms have "scan_once m (E @ ?r) = Some (v0, ?r)"
    by (simp add: value_at_def)
  moreover have "skip_ws (CHR '' '' # E @ ?r) = E @ ?r"
    using skip_ws_id [OF assms(3,4)] by (simp add: skip_ws_def is_json_ws_def)
  moreover have "skip_ws (encode_basestring_ascii k' @ t) = encode_basestring_ascii k' @ t"
    by (simp add: encode_basestring_ascii_def skip_ws_Cons is_json_ws_def)
  ultimately show ?thesis using assms(5)
    by (simp add: encode_basestring_ascii_def scanstring_encoded skip_ws_Cons is_json_ws_def)
qed

lemma value_atI:
  "(\<And>m r. fuel_for v \<le> Suc m \<Longrightarrow> no_digit_ahead r \<Longrightarrow> scan_once (Suc m) (E @ r) = Some (v, r))
   \<Longrightarrow> 0 < fuel_for v \<Longrightarrow> value_at E v"
  unfolding value_at_def
proof (intro allI impI)
  fix m r
  assume h: "\<And>m r. fuel_for v \<le> Suc m \<Longrightarrow> no_digit_ahead r \<Longrightarrow> scan_once (Suc m) (E @ r) = Some (v, r)"
    and "0 < fuel_for v" "fuel_for v \<le> m" "no_digit_ahead r"
  then obtain m' where "m = Suc m'" by (cases m) auto
  with h [of m' r] \<open>fuel_for v \<le> m\<close> \<open>no_digit_ahead r\<close>
  show "scan_once m (E @ r) = Some (v, r)" by simp
qed

lemma iterencode_hd_not_close: "hd (iterencode lvl v) \<noteq> CHR '']''"
proof (cases v)
  case (JInt i)
  with repr_int_hd [of i] show ?thesis by (auto simp: is_digit_def)
next
  case (JArr xs)
  then show ?thesis by (cases xs) simp_all
next
  case (JObj kvs)
  then show ?thesis by (cases kvs) auto
qed (simp_all add: encode_basestring_ascii_def)

lemma scan_once_array:
  assumes "scan_array m (iterencode l' x @ t) = Some (vs, r)"
  shows "scan_once (Suc m) (CHR ''['' # newline_indent l @ iterencode l' x @ t) = Some (JArr vs, r)"
proof -
  obtain d ds where d: "iterencode l' x = d # ds"
    using iterencode_hd [of l' x] by (cases "iterencode l' x") auto
  with iterencode_hd_not_close [of l' x] have "d \<noteq> CHR '']''" by simp
  moreover have "skip_ws (newline_indent l @ iterencode l' x @ t) = d # ds @ t"
    by (simp add: d [symmetric])
  ultimately show ?thesis using assms by (simp add: d)
qed

lemma scan_once_object:
  assumes "scan_object m (encode_basestring_ascii k @ t) = Some (ps, r)"
  shows "scan_once (Suc m) (CHR ''{'' # newline_indent l @ encode_basestring_ascii k @ t)
           = Some (JObj (dict_of_pairs ps), r)"
proof -
  have "skip_ws (newline_indent l @ encode_basestring_ascii k @ t)
          = dquote # concat (map escape_char k) @ dquote # t"
    by (simp add: encode_basestring_ascii_def skip_ws_Cons is_json_ws_def)
  then show ?thesis using assms by (simp add: encode_basestring_ascii_def)
qed

lemma roundtrip_aux:
  "wf_json v \<Longrightarrow> value_at (iterencode lvl v) v"
  "wf_json_list xs \<Longrightarrow> value_at E v0 \<Longrightarrow> fuel_for v0 + fuel_list xs < n \<Longrightarrow>
     scan_array n (E @ iterencode_list lvl xs @ newline_indent l' @ CHR '']'' # rest)
       = Some (v0 # xs, rest)"
  "wf_json_dict kvs \<Longrightarrow> value_at F w0 \<Longrightarrow> F \<noteq> [] \<Longrightarrow> \<not> is_json_ws (hd F) \<Longrightarrow>
     fuel_for w0 + fuel_dict kvs < n' \<Longrightarrow>
     scan_object n' (encode_basestring_ascii k0 @ '': '' @ F @ iterencode_dict lvl kvs
        @ newline_indent l'' @ CHR ''}'' # rest')
       = Some ((k0, w0) # kvs, rest')"
proof (induction lvl v and lvl xs and lvl kvs
    arbitrary: and E v0 n l' rest and F w0 n' k0 l'' rest'
    rule: iterencode_iterencode_list_iterencode_dict.induct)
  case (1 lvl)
  show ?case by (rule value_atI) simp_all
next
  case (2 lvl b)
  show ?case by (rule value_atI) simp_all
next
  case (3 lvl i)
  show ?case by (rule value_atI) (simp_all add: scan_once_int)
next
  case (4 lvl s)
  show ?case
    by (rule value_atI) (simp_all add: encode_basestring_ascii_def scanstring_encoded)
next
  case (5 lvl)
  show ?case by (rule value_atI) (simp_all add: skip_ws_def is_json_ws_def)
next
  case (6 lvl x xs)
  from 6 have vx: "value_at (iterencode (Suc lvl) x) x" and wxs: "wf_json_list xs" by simp_all
  show ?case
  proof (rule value_atI)
    fix m r
    assume "fuel_for (JArr (x # xs)) \<le> Suc m"
    then have "fuel_for x + fuel_list xs < m" by simp
    from "6.IH"(2) [OF wxs vx this, of lvl r]
    have "scan_array m (iterencode (Suc lvl) x @ iterencode_list (Suc lvl) xs
             @ newline_indent lvl @ CHR '']'' # r) = Some (x # xs, r)" .
    from scan_once_array [OF this, of "Suc lvl"]
    show "scan_once (Suc m) (iterencode lvl (JArr (x # xs)) @ r) = Some (JArr (x # xs), r)"
      by simp
  qed simp
next
  case (7 lvl)
  show ?case by (rule value_atI) (simp_all add: skip_ws_def is_json_ws_def)
next
  case (8 lvl k v kvs)
  from 8 have vv: "value_at (iterencode (Suc lvl) v) v" and wk: "wf_json_dict kvs"
    and dist: "distinct (map fst ((k, v) # kvs))" by simp_all
  note hd = iterencode_hd [of "Suc lvl" v]
  show ?case
  proof (rule value_atI)
    fix m r
    assume "fuel_for (JObj ((k, v) # kvs)) \<le> Suc m"
    then have "fuel_for v + fuel_dict kvs < m" by simp
    from "8.IH"(2) [OF wk vv conjunct1 [OF hd] conjunct2 [OF hd] this, of k lvl r]
    have "scan_object m (encode_basestring_ascii k @ '': '' @ iterencode (Suc lvl) v
            @ iterencode_dict (Suc lvl) kvs @ newline_indent lvl @ CHR ''}'' # r)
          = Some ((k, v) # kvs, r)" .
    from scan_once_object [OF this, of "Suc lvl"] dict_of_pairs_distinct [OF dist]
    show "scan_once (Suc m) (iterencode lvl (JObj ((k, v) # kvs)) @ r) = Some (JObj ((k, v) # kvs), r)"
      by simp
  qed simp
next
  case (9 lvl)
  then show ?case
    using scan_array_step [of E v0 "n - 1" l' rest]
    by (cases n) (simp_all del: scan_array.simps)
next
  case (10 lvl x xs)
  from 10 have vx: "value_at (iterencode lvl x) x" and wxs: "wf_json_list xs" by simp_all
  from "10.prems"(3) obtain m where n: "n = Suc m" and m: "fuel_for v0 \<le> m"
    "fuel_for x + fuel_list xs < m" by (cases n) auto
  from "10.IH"(2) [OF wxs vx m(2), of l' rest]
  have "scan_array m (iterencode lvl x @ iterencode_list lvl xs @ newline_indent l' @ CHR '']'' # rest)
          = Some (x # xs, rest)" .
  from scan_array_more [OF "10.prems"(2) m(1) this] show ?case by (simp add: n)
next
  case (11 lvl)
  then show ?case
    using scan_object_step [of F w0 "n' - 1" k0 l'' rest']
    by (cases n') simp_all
next
  case (12 lvl k v kvs)
  from 12 have vv: "value_at (iterencode lvl v) v" and wk: "wf_json_dict kvs" by simp_all
  note hd = iterencode_hd [of lvl v]
  from "12.prems"(5) obtain m where n: "n' = Suc m" and m: "fuel_for w0 \<le> m"
    "fuel_for v + fuel_dict kvs < m" by (cases n') auto
  from "12.IH"(2) [OF wk vv conjunct1 [OF hd] conjunct2 [OF hd] m(2), of k l'' rest']
  have "scan_object m (encode_basestring_ascii k @ '': '' @ iterencode lvl v
          @ iterencode_dict lvl kvs @ newline_indent l'' @ CHR ''}'' # rest')
        = Some ((k, v) # kvs, rest')" .
  from scan_object_more [OF "12.prems"(2) m(1) "12.prems"(3,4) this, of k0 lvl]
  show ?case by (simp add: n)
qed

lemma fuel_le_length:
  "fuel_for v \<le> length (iterencode lvl v)"
  "fuel_list xs \<le> length (iterencode_list lvl xs)"
  "fuel_dict kvs \<le> length (iterencode_dict lvl kvs)"
proof (induction lvl v and lvl xs and lvl kvs
    rule: iterencode_iterencode_list_iterencode_dict.induct)
  case (3 lvl i)
  from repr_int_hd [of i] show ?case by (cases "repr_int i") simp_all
qed (simp_all add: encode_basestring_ascii_def)

lemma json_loads_dumps: "wf_json v \<Longrightarrow> json_loads (json_dumps v) = Some v"
proof -
  assume "wf_json v"
  then have "value_at (iterencode 0 v) v" by (rule roundtrip_aux(1))
  moreover have "fuel_for v \<le> Suc (length (iterencode 0 v))"
    using fuel_le_length(1) [of v 0] by simp
  ultimately have "scan_once (Suc (length (iterencode 0 v))) (iterencode 0 v @ []) = Some (v, [])"
    unfolding value_at_def by (metis no_digit_ahead_simps(1))
  moreover have "skip_ws (iterencode 0 v) = iterencode 0 v"
    using skip_ws_iterencode [of 0 v "[]"] by simp
  ultimately show ?thesis by (simp add: json_loads_def json_dumps_def skip_ws_def)
qed

subsection \<open>The fuel of the decoder is always enough\<close>

lemma skip_ws_length: "length (skip_ws s) \<le> length s"
  by (simp add: skip_ws_def length_dropWhile_le)

lemma cons_char_SomeD:
  "cons_char c x = Some (k, r) \<Longrightarrow> \<exists>k'. x = Some (k', r)"
  by (cases x) (auto simp: cons_char_def)

lemma scanstring_length: "scanstring s = Some (k, r) \<Longrightarrow> length r < length s"
proof (induction s arbitrary: k rule: scanstring.induct)
  case 1
  then show ?case by simp
next
  case (2 c cs)
  show ?case
  proof (cases "c = dquote")
    case True
    with "2.prems" show ?thesis by simp
  next
    case nq: False
    show ?thesis
    proof (cases "c = backslash")
      case False
      with nq "2.prems" obtain k' where "scanstring cs = Some (k', r)"
        by (auto split: if_splits dest: cons_char_SomeD)
      from "2.IH"(3) [OF nq False _ this] "2.prems" nq False show ?thesis
        by (auto split: if_splits)
    next
      case True
      with nq "2.prems" obtain e t where cs: "cs = e # t" by (cases cs) auto
      show ?thesis
      proof (cases "e = CHR ''u''")
        case u: True
        with nq True cs "2.prems" obtain n k' where n: "decode_uXXXX (take 4 t) = Some n" "n < 256"
          and s: "scanstring (drop 4 t) = Some (k', r)"
          by (auto split: option.splits if_splits dest: cons_char_SomeD)
        from "2.IH"(1) [OF nq True cs u n(1) n(2) s] have "length r < length (drop 4 t)" .
        then show ?thesis by (simp add: cs)
      next
        case nu: False
        with nq True cs "2.prems" obtain d k' where d: "unescape e = Some d"
          and s: "scanstring t = Some (k', r)"
          by (auto split: option.splits if_splits dest: cons_char_SomeD)
        from "2.IH"(2) [OF nq True cs nu d s] show ?thesis by (simp add: cs)
      qed
    qed
  qed
qed

lemma scan_nat_length: "scan_nat s = Some (n, r) \<Longrightarrow> length r < length s"
proof (cases s)
  case Nil
  assume "scan_nat s = Some (n, r)"
  with Nil show ?thesis by (simp add: scan_nat_def)
next
  case (Cons c cs)
  assume a: "scan_nat s = Some (n, r)"
  show ?thesis
  proof (cases "c = CHR ''0''")
    case True
    with a Cons show ?thesis by (simp add: scan_nat_def)
  next
    case False
    with a Cons have d: "is_digit c" and r: "r = dropWhile is_digit cs"
      by (auto simp: scan_nat_def split: if_splits)
    have "length (dropWhile is_digit cs) \<le> length cs" by (rule length_dropWhile_le)
    with r Cons show ?thesis by simp
  qed
qed

lemma scan_int_length: "scan_int s = Some (i, r) \<Longrightarrow> length r < length s"
  by (cases s) (auto simp: scan_int_def split: if_splits dest!: scan_nat_length)

lemma scan_fuel:
  "scan_once n s = Some (v, r) \<Longrightarrow>
     length r < length s \<and> (\<forall>k. length s - length r \<le> k \<longrightarrow> scan_once k s = Some (v, r))"
  "scan_array n s = Some (vs, r) \<Longrightarrow>
     length r < length s \<and> (\<forall>k. length s - length r \<le> k \<longrightarrow> scan_array k s = Some (vs, r))"
  "scan_object n s = Some (ps, r) \<Longrightarrow>
     length r < length s \<and> (\<forall>k. length s - length r \<le> k \<longrightarrow> scan_object k s = Some (ps, r))"
proof (induction n s and n s and n s arbitrary: v r and vs r and ps r
    rule: scan_once_scan_array_scan_object.induct)
  case (1 s)
  then show ?case by simp
next
  case (2 n)
  then show ?case by simp
next
  case (3 n c cs)
  note pr = "3.prems"
  have suc: "\<And>k. length (c # cs) - length r \<le> k \<Longrightarrow> length r < length (c # cs) \<Longrightarrow> \<exists>k'. k = Suc k'"
    by (metis Suc_pred' diff_is_0_eq not_le zero_less_diff less_le_trans)
  show ?case
  proof (cases "c = dquote")
    case True
    with pr obtain k where k: "scanstring cs = Some (k, r)" "v = JStr k" by auto
    from scanstring_length [OF k(1)] have len: "length r < length (c # cs)" by simp
    moreover have "scan_once m (c # cs) = Some (v, r)" if "length (c # cs) - length r \<le> m" for m
    proof -
      from suc [OF that len] obtain m' where "m = Suc m'" ..
      with True k show ?thesis by simp
    qed
    ultimately show ?thesis by blast
  next
    case nq: False
    show ?thesis
    proof (cases "c = CHR ''{''")
      case ob: True
      from pr nq ob obtain d ds where sk: "skip_ws cs = d # ds"
        by (cases "skip_ws cs") auto
      have skl: "length (d # ds) \<le> length cs" using skip_ws_length [of cs] by (simp add: sk)
      show ?thesis
      proof (cases "d = CHR ''}''")
        case True
        with pr nq ob sk have vr: "v = JObj []" "r = ds" by auto
        with skl have len: "length r < length (c # cs)" by simp
        moreover have "scan_once m (c # cs) = Some (v, r)" if "length (c # cs) - length r \<le> m" for m
        proof -
          from suc [OF that len] obtain m' where "m = Suc m'" ..
          with nq ob sk True vr show ?thesis by simp
        qed
        ultimately show ?thesis by blast
      next
        case nc: False
        with pr nq ob sk have dq: "d = dquote" by (auto split: if_splits)
        with pr nq ob sk nc obtain ps where ps: "scan_object n (d # ds) = Some (ps, r)"
          "v = JObj (dict_of_pairs ps)" by auto
        from "3.IH"(1) [OF nq ob sk nc dq ps(1)]
        have ih: "length r < length (d # ds)"
          "\<And>k. length (d # ds) - length r \<le> k \<Longrightarrow> scan_object k (d # ds) = Some (ps, r)"
          by blast+
        from ih(1) skl have len: "length r < length (c # cs)" by simp
        moreover have "scan_once m (c # cs) = Some (v, r)" if "length (c # cs) - length r \<le> m" for m
        proof -
          from suc [OF that len] obtain m' where m: "m = Suc m'" ..
          with that skl have "length (d # ds) - length r \<le> m'" by simp
          from ih(2) [OF this] nq ob sk nc dq ps(2) m show ?thesis by simp
        qed
        ultimately show ?thesis by blast
      qed
    next
      case nob: False
      show ?thesis
      proof (cases "c = CHR ''[''")
        case ar: True
        from pr nq nob ar obtain d ds where sk: "skip_ws cs = d # ds"
          by (cases "skip_ws cs") auto
        have skl: "length (d # ds) \<le> length cs" using skip_ws_length [of cs] by (simp add: sk)
        show ?thesis
        proof (cases "d = CHR '']''")
          case True
          with pr nq nob ar sk have vr: "v = JArr []" "r = ds" by auto
          with skl have len: "length r < length (c # cs)" by simp
          moreover have "scan_once m (c # cs) = Some (v, r)" if "length (c # cs) - length r \<le> m" for m
          proof -
            from suc [OF that len] obtain m' where "m = Suc m'" ..
            with nq nob ar sk True vr show ?thesis by simp
          qed
          ultimately show ?thesis by blast
        next
          case nc: False
          with pr nq nob ar sk obtain vs where vs: "scan_array n (d # ds) = Some (vs, r)"
            "v = JArr vs" by auto
          from "3.IH"(2) [OF nq nob ar sk nc vs(1)]
          have ih: "length r < length (d # ds)"
            "\<And>k. length (d # ds) - length r \<le> k \<Longrightarrow> scan_array k (d # ds) = Some (vs, r)"
            by blast+
          from ih(1) skl have len: "length r < length (c # cs)" by simp
          moreover have "scan_once m (c # cs) = Some (v, r)" if "length (c # cs) - length r \<le> m" for m
          proof -
            from suc [OF that len] obtain m' where m: "m = Suc m'" ..
            with that skl have "length (d # ds) - length r \<le> m'" by simp
            from ih(2) [OF this] nq nob ar sk nc vs(2) m show ?thesis by simp
          qed
          ultimately show ?thesis by blast
        qed
      next
        case nar: False
        have len: "length r < length (c # cs)"
          using pr nq nob nar
          by (auto split: if_splits dest!: scan_int_length)
        moreover have "scan_once m (c # cs) = Some (v, r)" if "length (c # cs) - length r \<le> m" for m
        proof -
          from suc [OF that len] obtain m' where "m = Suc m'" ..
          with pr nq nob nar show ?thesis by simp
        qed
        ultimately show ?thesis by blast
      qed
    qed
  qed
next
  case (4 s)
  then show ?case by simp
next
  case (5 n s)
  note pr = "5.prems"
  from pr obtain v r1 where v: "scan_once n s = Some (v, r1)"
    by (auto split: option.splits)
  from "5.IH"(1) [OF v]
  have ih1: "length r1 < length s"
    "\<And>k. length s - length r1 \<le> k \<Longrightarrow> scan_once k s = Some (v, r1)" by blast+
  from pr v obtain d ds where sk: "skip_ws r1 = d # ds"
    by (cases "skip_ws r1") auto
  have skl: "length (d # ds) \<le> length r1" using skip_ws_length [of r1] by (simp add: sk)
  show ?case
  proof (cases "d = CHR '']''")
    case True
    with pr v sk have vr: "vs = [v]" "r = ds" by auto
    with skl ih1(1) have len: "length r < length s" by simp
    moreover have "scan_array m s = Some (vs, r)" if "length s - length r \<le> m" for m
    proof -
      from that len obtain m' where m: "m = Suc m'" by (cases m) auto
      with that skl vr ih1(1) have "length s - length r1 \<le> m'" by simp
      from ih1(2) [OF this] sk True vr m show ?thesis by simp
    qed
    ultimately show ?thesis by blast
  next
    case nc: False
    with pr v sk have cm: "d = CHR '',''" by (auto split: if_splits)
    with pr v sk nc obtain vs' where vs': "scan_array n (skip_ws ds) = Some (vs', r)"
      "vs = v # vs'" by auto
    from "5.IH"(2) [OF v refl sk nc cm vs'(1)]
    have ih2: "length r < length (skip_ws ds)"
      "\<And>k. length (skip_ws ds) - length r \<le> k \<Longrightarrow> scan_array k (skip_ws ds) = Some (vs', r)"
      by blast+
    have l2: "length (skip_ws ds) \<le> length ds" by (rule skip_ws_length)
    with ih2(1) skl ih1(1) have len: "length r < length s" by simp
    moreover have "scan_array m s = Some (vs, r)" if "length s - length r \<le> m" for m
    proof -
      from that len obtain m' where m: "m = Suc m'" by (cases m) auto
      with that skl l2 ih1(1) ih2(1) have a: "length s - length r1 \<le> m'"
        and b: "length (skip_ws ds) - length r \<le> m'" by simp_all
      from ih1(2) [OF a] ih2(2) [OF b] sk nc cm vs'(2) m show ?thesis by simp
    qed
    ultimately show ?thesis by blast
  qed
next
  case (6 s)
  then show ?case by simp
next
  case (7 n s)
  note pr = "7.prems"
  from pr obtain q s1 where s: "s = q # s1" by (cases s) auto
  with pr have q: "\<not> q \<noteq> dquote" by (auto split: if_splits)
  from pr s q obtain k r0 where ks: "scanstring s1 = Some (k, r0)"
    by (auto split: option.splits)
  from scanstring_length [OF ks] have l0: "length r0 < length s1" .
  from pr s q ks obtain c r1 where sk0: "skip_ws r0 = c # r1"
    by (cases "skip_ws r0") auto
  have skl0: "length (c # r1) \<le> length r0" using skip_ws_length [of r0] by (simp add: sk0)
  from pr s q ks sk0 have col: "\<not> c \<noteq> CHR '':''" by (auto split: if_splits)
  from pr s q ks sk0 col obtain v r2 where v: "scan_once n (skip_ws r1) = Some (v, r2)"
    by (auto split: option.splits)
  from "7.IH"(1) [OF s q ks refl sk0 col v]
  have ih1: "length r2 < length (skip_ws r1)"
    "\<And>k. length (skip_ws r1) - length r2 \<le> k \<Longrightarrow> scan_once k (skip_ws r1) = Some (v, r2)"
    by blast+
  have l1: "length (skip_ws r1) \<le> length r1" by (rule skip_ws_length)
  from pr s q ks sk0 col v obtain d ds where sk: "skip_ws r2 = d # ds"
    by (cases "skip_ws r2") auto
  have skl: "length (d # ds) \<le> length r2" using skip_ws_length [of r2] by (simp add: sk)
  show ?case
  proof (cases "d = CHR ''}''")
    case True
    with pr s q ks sk0 col v sk have vr: "ps = [(k, v)]" "r = ds" by auto
    with skl ih1(1) l1 skl0 l0 s have len: "length r < length s" by simp
    moreover have "scan_object m s = Some (ps, r)" if "length s - length r \<le> m" for m
    proof -
      from that len obtain m' where m: "m = Suc m'" by (cases m) auto
      with that skl vr ih1(1) l1 skl0 l0 s have "length (skip_ws r1) - length r2 \<le> m'" by simp
      from ih1(2) [OF this] s q ks sk0 col sk True vr m show ?thesis by simp
    qed
    ultimately show ?thesis by blast
  next
    case nc: False
    with pr s q ks sk0 col v sk have cm: "d = CHR '',''" by (auto split: if_splits)
    with pr s q ks sk0 col v sk nc obtain ps' where ps': "scan_object n (skip_ws ds) = Some (ps', r)"
      "ps = (k, v) # ps'" by auto
    from "7.IH"(2) [OF s q ks refl sk0 col v refl sk nc cm ps'(1)]
    have ih2: "length r < length (skip_ws ds)"
      "\<And>k. length (skip_ws ds) - length r \<le> k \<Longrightarrow> scan_object k (skip_ws ds) = Some (ps', r)"
      by blast+
    have l2: "length (skip_ws ds) \<le> length ds" by (rule skip_ws_length)
    with ih2(1) skl ih1(1) l1 skl0 l0 s have len: "length r < length s" by simp
    moreover have "scan_object m s = Some (ps, r)" if "length s - length r \<le> m" for m
    proof -
      from that len obtain m' where m: "m = Suc m'" by (cases m) auto
      with that skl l2 ih1(1) ih2(1) l1 skl0 l0 s
      have a: "length (skip_ws r1) - length r2 \<le> m'"
        and b: "length (skip_ws ds) - length r \<le> m'" by simp_all
      from ih1(2) [OF a] ih2(2) [OF b] s q ks sk0 col sk nc cm ps'(2) m show ?thesis by simp
    qed
    ultimately show ?thesis by blast
  qed
qed

lemma json_loads_iff:
  "json_loads s = Some v \<longleftrightarrow> (\<exists>n r. scan_once n (skip_ws s) = Some (v, r) \<and> skip_ws r = [])"
proof
  assume "json_loads s = Some v"
  then obtain r where "scan_once (Suc (length s)) (skip_ws s) = Some (v, r)" "skip_ws r = []"
    by (auto simp: json_loads_def split: option.splits if_splits)
  then show "\<exists>n r. scan_once n (skip_ws s) = Some (v, r) \<and> skip_ws r = []" by blast
next
  assume "\<exists>n r. scan_once n (skip_ws s) = Some (v, r) \<and> skip_ws r = []"
  then obtain n r where p: "scan_once n (skip_ws s) = Some (v, r)" and e: "skip_ws r = []"
    by blast
  from skip_ws_length [of s] have "length (skip_ws s) - length r \<le> Suc (length s)" by simp
  with scan_fuel(1) [OF p] have "scan_once (Suc (length s)) (skip_ws s) = Some (v, r)" by blast
  with e show "json_loads s = Some v" by (simp add: json_loads_def)
qed

section \<open>Facts about the storage file\<close>

lemma wf_json_dict_update:
  "wf_json v \<Longrightarrow> wf_json_dict d \<Longrightarrow> wf_json_dict (AList.update k v d)"
  by (induction d) auto

lemma wf_foldl_update:
  "wf_json_dict ps \<Longrightarrow> wf_json_dict d \<Longrightarrow> distinct (map fst d) \<Longrightarrow>
   wf_json_dict (foldl (\<lambda>d (k, v). AList.update k v d) d ps)
   \<and> distinct (map fst (foldl (\<lambda>d (k, v). AList.update k v d) d ps))"
proof (induction ps arbitrary: d)
  case Nil
  then show ?case by simp
next
  case (Cons p ps)
  obtain k v where p: "p = (k, v)" by (cases p)
  with Cons.prems have "wf_json v" "wf_json_dict ps" by simp_all
  with Cons.prems Cons.IH [of "AList.update k v d"] show ?case
    by (simp add: p wf_json_dict_update distinct_update)
qed

lemma wf_dict_of_pairs:
  "wf_json_dict ps \<Longrightarrow> wf_json_dict (dict_of_pairs ps) \<and> distinct (map fst (dict_of_pairs ps))"
  using wf_foldl_update [of ps "[]"] by (simp add: dict_of_pairs_def)

lemma scan_wf:
  "scan_once n s = Some (v, r) \<Longrightarrow> wf_json v"
  "scan_array n s = Some (vs, r) \<Longrightarrow> wf_json_list vs"
  "scan_object n s = Some (ps, r) \<Longrightarrow> wf_json_dict ps"
proof (induction n s and n s and n s arbitrary: v r and vs r and ps r
    rule: scan_once_scan_array_scan_object.induct)
  case (3 n c cs)
  then show ?case
    by (auto split: if_splits list.splits simp: wf_dict_of_pairs)
next
  case (5 n s)
  then show ?case
    by (auto split: option.splits list.splits if_splits)
next
  case (7 n s)
  then show ?case
    by (auto split: option.splits list.splits if_splits)
qed simp_all

lemma json_loads_wf: "json_loads s = Some v \<Longrightarrow> wf_json v"
  by (auto simp: json_loads_def scan_wf(1) split: option.splits if_splits)

lemma load_courses_wf: "load_courses w = Inr v \<Longrightarrow> wf_json v"
  by (auto simp: load_courses_def json_load_def open_read_def json_loads_wf
      split: if_splits sum.splits option.splits file_state.splits)

lemma load_courses_openable: "load_courses w = Inr v \<Longrightarrow> course_file w \<noteq> Unopenable"
  by (auto simp: load_courses_def open_read_def os_path_exists_def split: if_splits)

lemma load_after_dump:
  "wf_json v \<Longrightarrow> load_courses (w\<lparr>course_file := Contents (json_dumps v)\<rparr>) = Inr v"
  by (simp add: load_courses_def os_path_exists_def open_read_def json_load_def json_loads_dumps)

lemma dump_courses_ok:
  "course_file w \<noteq> Unopenable \<Longrightarrow>
   dump_courses v w = (Inr (), w\<lparr>course_file := Contents (json_dumps v)\<rparr>)"
  by (cases "course_file w") (simp_all add: dump_courses_def open_write_def)

section \<open>Lemmas about the handlers\<close>

subsection \<open>Reading and writing the course file\<close>

lemma wf_json_list_append:
  "wf_json_list (xs @ ys) \<longleftrightarrow> wf_json_list xs \<and> wf_json_list ys"
  by (induction xs) auto

lemma save_courses_appends:
  assumes "load_courses w = Inr (JArr xs)"
  shows "save_courses r w = (Inr (), w\<lparr>course_file := Contents (json_dumps (JArr (xs @ [r])))\<rparr>)"
  using assms load_courses_openable [OF assms]
  by (simp add: save_courses_def py_append_def dump_courses_ok)

lemma append_sequentially_from:
  "load_courses w = Inr (JArr xs) \<Longrightarrow> wf_json_list rs \<Longrightarrow>
   fst (append_sequentially rs w) = Inr ()
   \<and> load_courses (snd (append_sequentially rs w)) = Inr (JArr (xs @ rs))"
proof (induction rs arbitrary: w xs)
  case Nil
  then show ?case by simp
next
  case (Cons r rs)
  let ?w' = "w\<lparr>course_file := Contents (json_dumps (JArr (xs @ [r])))\<rparr>"
  from load_courses_wf [OF Cons.prems(1)] Cons.prems(2)
  have "wf_json (JArr (xs @ [r]))" by (simp add: wf_json_list_append)
  then have "load_courses ?w' = Inr (JArr (xs @ [r]))" by (rule load_after_dump)
  moreover from Cons.prems have "wf_json_list rs" by simp
  ultimately have "fst (append_sequentially rs ?w') = Inr ()
      \<and> load_courses (snd (append_sequentially rs ?w')) = Inr (JArr ((xs @ [r]) @ rs))"
    by (rule Cons.IH)
  then show ?case by (simp add: save_courses_appends [OF Cons.prems(1)])
qed

lemma load_courses_cong [simp]:
  "load_courses (flash m c w) = load_courses w"
  "load_courses (logger_log lv fs w) = load_courses w"
  by (simp_all add: load_courses_def flash_def logger_log_def)

lemma load_courses_same_file:
  "course_file w' = course_file w \<Longrightarrow> load_courses w' = load_courses w"
  by (simp add: load_courses_def)

lemma load_courses_updates [simp]:
  "load_courses (w\<lparr>ticks := n\<rparr>) = load_courses w"
  "load_courses (w\<lparr>requests_count := rc\<rparr>) = load_courses w"
  "load_courses (w\<lparr>error_count := ec\<rparr>) = load_courses w"
  "load_courses (w\<lparr>finished_spans := sps\<rparr>) = load_courses w"
  "load_courses (w\<lparr>app_log := lg\<rparr>) = load_courses w"
  "load_courses (w\<lparr>flashes := fl\<rparr>) = load_courses w"
  by (simp_all add: load_courses_def)

lemma wf_json_list_filter: "wf_json_list xs \<Longrightarrow> wf_json_list (filter P xs)"
  by (induction xs) auto

lemma keep_other_codes_filter:
  "list_all has_code cs \<Longrightarrow>
   keep_other_codes c cs = Inr (filter (\<lambda>x. code_of x \<noteq> Some (JStr c)) cs)"
  by (induction cs)
     (auto simp: has_code_def code_of_def py_getitem_def split: json.splits option.splits)

lemma delete_course_effect:
  assumes ld: "load_courses w = Inr (JArr cs)" and hc: "list_all has_code cs"
  shows "delete_course c w =
           (Inr (Redirect ''/catalog''),
            flash (''Course with code '' @ [CHR 0x27] @ c @ [CHR 0x27] @ '' deleted successfully!'')
              ''success''
              (w\<lparr>course_file :=
                   Contents (json_dumps (JArr (filter (\<lambda>x. code_of x \<noteq> Some (JStr c)) cs)))\<rparr>))"
  using ld load_courses_openable [OF ld]
  by (simp add: delete_course_def py_iter_def keep_other_codes_filter [OF hc] dump_courses_ok)

lemma delete_course_load:
  assumes ld: "load_courses w = Inr (JArr cs)" and hc: "list_all has_code cs"
  shows "fst (delete_course c w) = Inr (Redirect ''/catalog'')
         \<and> load_courses (snd (delete_course c w))
             = Inr (JArr (filter (\<lambda>x. code_of x \<noteq> Some (JStr c)) cs))"
proof -
  from load_courses_wf [OF ld] have "wf_json (JArr (filter (\<lambda>x. code_of x \<noteq> Some (JStr c)) cs))"
    by (simp add: wf_json_list_filter)
  then show ?thesis
    by (simp add: delete_course_effect [OF ld hc] load_after_dump)
qed

lemma save_courses_frame:
  "snd (save_courses d w) = w\<lparr>course_file := course_file (snd (save_courses d w))\<rparr>"
  by (simp add: save_courses_def dump_courses_def split: sum.splits)

lemma save_courses_fields [simp]:
  "app_log (snd (save_courses d w)) = app_log w"
  "finished_spans (snd (save_courses d w)) = finished_spans w"
  "clock (snd (save_courses d w)) = clock w"
  "ticks (snd (save_courses d w)) = ticks w"
  by (subst save_courses_frame, simp)+

subsection \<open>Looking a course up\<close>

lemma next_with_code_find:
  "list_all has_code cs \<Longrightarrow>
   next_with_code c cs = Inr (find (\<lambda>x. code_of x = Some (JStr c)) cs)"
  by (induction cs)
     (auto simp: has_code_def code_of_def py_getitem_def split: json.splits option.splits)

lemma has_code_truthy: "has_code x \<Longrightarrow> py_truthy x"
  by (auto simp: has_code_def code_of_def py_truthy_def split: json.splits)

lemma fst_start_as_current_span:
  "fst (start_as_current_span nm k body w) = fst (body \<lparr>span_name = nm, kind = k, attributes = [], events = []\<rparr> w)"
  by (simp add: start_as_current_span_def split: prod.splits)

lemma course_details_response:
  assumes "load_courses w = Inr (JArr cs)" and "list_all has_code cs"
  shows "fst (course_details c rq w) =
           Inr (case find (\<lambda>x. code_of x = Some (JStr c)) cs of
                  Some x \<Rightarrow> Template ''course_details.html'' [(''course'', x)]
                | None \<Rightarrow> Redirect ''/catalog'')"
proof -
  note ld = assms(1)
  show ?thesis
  proof (cases "find (\<lambda>x. code_of x = Some (JStr c)) cs")
    case None
    then show ?thesis using ld
      by (simp add: course_details_def fst_start_as_current_span py_iter_def time_time_def
          next_with_code_find [OF assms(2)] details_not_found_def Let_def)
  next
    case (Some x)
    then have "x \<in> set cs" "code_of x = Some (JStr c)"
      by (auto simp: find_Some_iff)
    with assms(2) have "py_truthy x" "py_getitem x ''code'' = Inr (JStr c)"
      by (auto simp: list_all_iff has_code_truthy code_of_def py_getitem_def split: json.splits)
    with Some show ?thesis using ld
      by (simp add: course_details_def fst_start_as_current_span py_iter_def time_time_def
          next_with_code_find [OF assms(2)] details_found_def Let_def)
  qed
qed

lemma course_catalog_response:
  assumes "load_courses w = Inr (JArr cs)"
  shows "fst (course_catalog rq w) = Inr (Template ''course_catalog.html'' [(''courses'', JArr cs)])"
  using assms
  by (simp add: course_catalog_def fst_start_as_current_span time_time_def Let_def py_len_def
      catalog_rendered_def)

subsection \<open>Stripping and validating the form\<close>

lemma dropWhile_all_Nil: "(\<forall>x \<in> set (dropWhile P xs). P x) \<Longrightarrow> dropWhile P xs = []"
  using hd_dropWhile [of P xs] by (cases "dropWhile P xs") auto

lemma strip_Nil_iff: "strip s = [] \<longleftrightarrow> list_all is_space s"
proof
  assume "strip s = []"
  then have "dropWhile is_space (rev (dropWhile is_space s)) = []" by (simp add: strip_def)
  then have "\<forall>x \<in> set (dropWhile is_space s). is_space x"
    by (simp only: dropWhile_eq_Nil_conv set_rev)
  then have "dropWhile is_space s = []" by (rule dropWhile_all_Nil)
  then show "list_all is_space s" by (simp add: list_all_iff)
next
  assume "list_all is_space s"
  then have h: "dropWhile is_space s = []" by (simp add: list_all_iff)
  show "strip s = []" by (simp only: strip_def h rev.simps dropWhile.simps)
qed

lemma field_missing_iff: "field_missing rq k \<longleftrightarrow> strip (form_get rq k []) = []"
  by (simp add: field_missing_def form_get_def strip_Nil_iff split: option.splits)

lemma strippedI:
  "xs \<noteq> [] \<Longrightarrow> \<not> is_space (hd xs) \<Longrightarrow> \<not> is_space (last xs) \<Longrightarrow> stripped xs"
  by (cases xs) (simp_all add: stripped_def)

lemma stripped_strip: "stripped (strip s)"
proof (cases "dropWhile is_space s = []")
  case True
  have "strip s = []" by (simp only: strip_def True rev.simps dropWhile.simps)
  then show ?thesis by (simp add: stripped_def)
next
  case False
  define t where "t = dropWhile is_space s"
  define u where "u = dropWhile is_space (rev t)"
  from False have t: "t \<noteq> []" by (simp only: t_def not_False_eq_True)
  from False have ht: "\<not> is_space (hd t)" unfolding t_def by (rule hd_dropWhile)
  have "last (rev t) = hd t" by (rule last_rev)
  with ht have "\<not> is_space (last (rev t))" by simp
  moreover from t have "rev t \<noteq> []" by simp
  ultimately have "\<exists>x \<in> set (rev t). \<not> is_space x" using last_in_set by blast
  then have u: "u \<noteq> []" unfolding u_def by (simp only: dropWhile_eq_Nil_conv) blast
  then have hu: "\<not> is_space (hd u)" unfolding u_def by (rule hd_dropWhile)
  have "rev t = takeWhile is_space (rev t) @ u" unfolding u_def by simp
  with u have "last u = last (rev t)" by (metis last_appendR)
  then have lu: "last u = hd t" by (simp add: last_rev)
  have "strip s = rev u" by (simp only: strip_def t_def u_def)
  moreover have "rev u \<noteq> []" using u by simp
  moreover have "hd (rev u) = hd t" using lu by (simp add: hd_rev)
  moreover have "last (rev u) = hd u" by (rule last_rev)
  ultimately show ?thesis using ht hu by (simp add: strippedI)
qed

lemma py_not_field_course:
  "k \<in> {''code'', ''name'', ''instructor''} \<Longrightarrow>
   py_not_field (course_of_form rq) k \<longleftrightarrow> strip (form_get rq k []) = []"
  by (auto simp: py_not_field_def course_of_form_def py_truthy_def)

lemma add_course_invalid:
  assumes "request_method rq = ''POST''"
    and "field_missing rq ''code'' \<or> field_missing rq ''name'' \<or> field_missing rq ''instructor''"
  shows "add_course rq w =
    (Inr (Template ''add_course.html'' []),
     w\<lparr>ticks := Suc (ticks w),
        requests_count := increment ''add_course'' (requests_count w),
        error_count := increment ''add_course'' (error_count w),
        app_log := app_log w @ [\<lparr>level = WARNING,
           message = [(''event'', AStr ''Form Validation Error''),
                      (''route'', AStr ''/add_course''),
                      (''error'', AStr ''Missing required fields'')]\<rparr>],
        flashes := flashes w @ [(''Course Code, Course Name and Instructor are required!'', ''error'')],
        finished_spans := finished_spans w @
          [\<lparr>span_name = ''add-course'', kind = INTERNAL,
            attributes = [(''http.method'', AStr ''POST''), (''http.url'', AStr (url rq)),
                          (''user.ip'', AStr (remote_addr rq)),
                          (''requests.count'', AInt (requests_count w ''add_course'' + 1)),
                          (''error_count'', AInt (error_count w ''add_course'' + 1))],
            events = [''Validation failed: Missing required fields'']\<rparr>]\<rparr>)"
proof -
  from assms(2) have "py_not_field (course_of_form rq) ''code'' \<or> py_not_field (course_of_form rq) ''name''
      \<or> py_not_field (course_of_form rq) ''instructor''"
    by (simp add: py_not_field_course field_missing_iff)
  then show ?thesis using assms(1)
    by (simp add: add_course_def start_as_current_span_def time_time_def add_validation_failed_def
        Let_def set_attribute_def add_event_def logger_log_def flash_def increment_def)
qed

lemma course_of_form_stripped:
  "list_all (\<lambda>kv. stripped_value (snd kv)) (course_of_form rq)"
  by (simp add: course_of_form_def stripped_value_def stripped_strip)

lemma clean_course_of_form: "clean_course (JObj (course_of_form rq))"
  using course_of_form_stripped [of rq]
  by (simp add: clean_course_def) (simp add: course_of_form_def)

lemma wf_course_of_form: "wf_json (JObj (course_of_form rq))"
  by (simp add: course_of_form_def)

lemma add_course_valid_file:
  assumes "request_method rq = ''POST''"
    and "\<not> field_missing rq ''code''" "\<not> field_missing rq ''name''"
    and "\<not> field_missing rq ''instructor''"
    and ld: "load_courses w = Inr (JArr cs)"
  shows "fst (add_course rq w) = Inr (Redirect ''/catalog'')
    \<and> course_file (snd (add_course rq w))
        = Contents (json_dumps (JArr (cs @ [JObj (course_of_form rq)])))"
proof -
  let ?w1 = "w\<lparr>ticks := Suc (ticks w),
               requests_count := increment ''add_course'' (requests_count w)\<rparr>"
  have "load_courses ?w1 = Inr (JArr cs)" using ld by simp
  note sv = save_courses_appends [OF this, of "JObj (course_of_form rq)"]
  from assms(2-4) have "\<not> py_not_field (course_of_form rq) ''code''"
    "\<not> py_not_field (course_of_form rq) ''name''"
    "\<not> py_not_field (course_of_form rq) ''instructor''"
    by (simp_all add: py_not_field_course field_missing_iff)
  then show ?thesis using assms(1)
    by (simp add: add_course_def start_as_current_span_def time_time_def sv add_saved_def
        Let_def logger_log_def flash_def)
qed

lemma add_course_valid_load:
  assumes "request_method rq = ''POST''"
    and "\<not> field_missing rq ''code''" "\<not> field_missing rq ''name''"
    and "\<not> field_missing rq ''instructor''"
    and ld: "load_courses w = Inr (JArr cs)"
  shows "load_courses (snd (add_course rq w)) = Inr (JArr (cs @ [JObj (course_of_form rq)]))"
proof -
  from load_courses_wf [OF ld] wf_course_of_form [of rq]
  have wf: "wf_json (JArr (cs @ [JObj (course_of_form rq)]))"
    by (simp add: wf_json_list_append)
  have "load_courses (snd (add_course rq w))
      = load_courses (w\<lparr>course_file := course_file (snd (add_course rq w))\<rparr>)"
    by (rule load_courses_same_file) simp
  also have "\<dots> = Inr (JArr (cs @ [JObj (course_of_form rq)]))"
    using add_course_valid_file [OF assms] load_after_dump [OF wf, of w] by simp
  finally show ?thesis .
qed

lemma add_course_other_file:
  assumes "request_method rq \<noteq> ''POST''"
  shows "course_file (snd (add_course rq w)) = course_file w"
  using assms
  by (simp add: add_course_def start_as_current_span_def time_time_def Let_def)

subsection \<open>Stored fields stay stripped under every operation\<close>

lemma course_catalog_file: "course_file (snd (course_catalog rq w)) = course_file w"
  by (simp add: course_catalog_def start_as_current_span_def time_time_def Let_def
      catalog_rendered_def logger_log_def split: sum.splits)

lemma course_details_file: "course_file (snd (course_details c rq w)) = course_file w"
  by (simp add: course_details_def start_as_current_span_def time_time_def Let_def
      details_found_def details_not_found_def logger_log_def flash_def
      split: sum.splits option.splits)

lemma manual_trace_file: "course_file (snd (manual_trace rq w)) = course_file w"
  by (simp add: manual_trace_def start_as_current_span_def Let_def)

lemma clean_store_same_file:
  "course_file w' = course_file w \<Longrightarrow> clean_store w' = clean_store w"
  using load_courses_same_file [of w' w] by (simp add: clean_store_def)

lemma clean_course_has_code: "clean_course x \<Longrightarrow> has_code x"
  by (auto simp: clean_course_def has_code_def code_of_def split: json.splits)

lemma clean_storeD:
  "clean_store w \<Longrightarrow> \<exists>cs. load_courses w = Inr (JArr cs) \<and> list_all clean_course cs"
  by (auto simp: clean_store_def split: sum.splits json.splits)

lemma clean_storeI:
  "load_courses w = Inr (JArr cs) \<Longrightarrow> list_all clean_course cs \<Longrightarrow> clean_store w"
  by (simp add: clean_store_def)

lemma add_course_clean_store:
  assumes "clean_store w"
  shows "clean_store (snd (add_course rq w))"
proof -
  from clean_storeD [OF assms] obtain cs where
    ld: "load_courses w = Inr (JArr cs)" and cl: "list_all clean_course cs" by blast
  show ?thesis
  proof (cases "request_method rq = ''POST''")
    case False
    from add_course_other_file [OF False] have "clean_store (snd (add_course rq w)) = clean_store w"
      by (rule clean_store_same_file)
    with assms show ?thesis by simp
  next
    case post: True
    show ?thesis
    proof (cases "field_missing rq ''code'' \<or> field_missing rq ''name'' \<or> field_missing rq ''instructor''")
      case True
      have "course_file (snd (add_course rq w)) = course_file w"
        by (simp add: add_course_invalid [OF post True])
      then have "clean_store (snd (add_course rq w)) = clean_store w"
        by (rule clean_store_same_file)
      with assms show ?thesis by simp
    next
      case False
      then have nm: "\<not> field_missing rq ''code''" "\<not> field_missing rq ''name''"
        "\<not> field_missing rq ''instructor''" by blast+
      have "load_courses (snd (add_course rq w)) = Inr (JArr (cs @ [JObj (course_of_form rq)]))"
        by (rule add_course_valid_load [OF post nm ld])
      moreover have "list_all clean_course (cs @ [JObj (course_of_form rq)])"
        using cl clean_course_of_form [of rq] by simp
      ultimately show ?thesis by (rule clean_storeI)
    qed
  qed
qed

lemma delete_course_clean_store:
  assumes "clean_store w"
  shows "clean_store (snd (delete_course c w))"
proof -
  from clean_storeD [OF assms] obtain cs where
    ld: "load_courses w = Inr (JArr cs)" and cl: "list_all clean_course cs" by blast
  from cl have "list_all has_code cs"
    unfolding list_all_iff using clean_course_has_code by blast
  from delete_course_load [OF ld this, of c]
  have "load_courses (snd (delete_course c w))
      = Inr (JArr (filter (\<lambda>x. code_of x \<noteq> Some (JStr c)) cs))" by blast
  moreover from cl have "list_all clean_course (filter (\<lambda>x. code_of x \<noteq> Some (JStr c)) cs)"
    unfolding list_all_iff by simp
  ultimately show ?thesis by (rule clean_storeI)
qed

lemma handle_clean_store:
  assumes "clean_store w"
  shows "clean_store (snd (handle x w))"
proof (cases x)
  case Index
  with assms show ?thesis by (simp add: index_def)
next
  case (Catalog rq)
  with assms show ?thesis by (simp add: clean_store_same_file [OF course_catalog_file])
next
  case (AddCourse rq)
  with add_course_clean_store [OF assms] show ?thesis by simp
next
  case (DeleteCourse c)
  with delete_course_clean_store [OF assms] show ?thesis by simp
next
  case (CourseDetails c rq)
  with assms show ?thesis by (simp add: clean_store_same_file [OF course_details_file])
next
  case (ManualTrace rq)
  with assms show ?thesis by (simp add: clean_store_same_file [OF manual_trace_file])
next
  case AutoInstrumented
  with assms show ?thesis by (simp add: auto_instrumented_def)
qed

lemma run_clean_store: "clean_store w \<Longrightarrow> clean_store (run ops w)"
  by (induction ops arbitrary: w) (simp_all add: handle_clean_store)

lemma blank_field_missing:
  "map_of (form rq) k = Some v \<Longrightarrow> list_all is_space v \<Longrightarrow> field_missing rq k"
  by (simp add: field_missing_def)

subsection \<open>Span attributes\<close>

lemma span_attr_set_attribute [simp]:
  "span_attr (set_attribute k v sp) k' = (if k' = k then Some v else span_attr sp k')"
  by (simp add: span_attr_def set_attribute_def update_conv')

lemma span_attr_add_event [simp]: "span_attr (add_event e sp) k = span_attr sp k"
  by (simp add: span_attr_def add_event_def)

lemma span_attr_new [simp]:
  "span_attr \<lparr>span_name = nm, kind = kd, attributes = [], events = []\<rparr> k = None"
  by (simp add: span_attr_def)

lemma last_span_start:
  "last_span (snd (start_as_current_span nm kd body w)) =
     (case body \<lparr>span_name = nm, kind = kd, attributes = [], events = []\<rparr> w of
        (res, sp, w') \<Rightarrow> (case res of Inl e \<Rightarrow> add_event ''exception'' sp | Inr r \<Rightarrow> sp))"
  by (simp add: start_as_current_span_def last_span_def split: prod.splits)

lemma catalog_rendered_span:
  "fst (snd (catalog_rendered st cs n sp w)) =
     set_attribute ''processing_time'' (AFloat (clock w (ticks w) - st))
       (set_attribute ''total_courses'' (AInt (int n)) sp)"
  by (simp add: catalog_rendered_def time_time_def Let_def)

lemma add_validation_failed_span:
  "fst (snd (add_validation_failed sp w)) =
     set_attribute ''error_count'' (AInt (error_count w ''add_course'' + 1))
       (add_event ''Validation failed: Missing required fields'' sp)"
  by (simp add: add_validation_failed_def Let_def increment_def)

lemma add_saved_span:
  "fst (snd (add_saved st course sp w)) =
     set_attribute ''processing_time'' (AFloat (clock w (ticks w) - st))
       (add_event ''Course saved successfully'' sp)"
  by (simp add: add_saved_def time_time_def Let_def)

lemma details_not_found_span:
  "fst (snd (details_not_found c sp w)) =
     set_attribute ''error_count'' (AInt (error_count w ''course_details'' + 1))
       (add_event ''Course not found'' sp)"
  by (simp add: details_not_found_def Let_def increment_def)

lemma details_found_span:
  "fst (snd (details_found st course sp w)) =
     set_attribute ''processing_time'' (AFloat (clock w (ticks w) - st))
       (add_event ''Course details rendered successfully'' sp)"
  by (simp add: details_found_def time_time_def Let_def split: sum.splits)

lemma case_prod_span:
  "(case p of (res, sp, w') \<Rightarrow> (case res of Inl e \<Rightarrow> add_event ''exception'' sp | Inr r \<Rightarrow> sp))
     = (case fst p of Inl e \<Rightarrow> add_event ''exception'' (fst (snd p)) | Inr r \<Rightarrow> fst (snd p))"
  by (cases p) (simp split: sum.splits)

lemma span_attr_result:
  "span_attr (case res of Inl e \<Rightarrow> add_event ''exception'' sp | Inr r \<Rightarrow> sp) k = span_attr sp k"
  by (cases res) simp_all

lemma course_catalog_attr:
  assumes "early_key k"
  shows "span_attr (last_span (snd (course_catalog rq w))) k =
     map_of [(''http.method'', AStr (request_method rq)), (''http.url'', AStr (url rq)),
             (''user.ip'', AStr (remote_addr rq)),
             (''requests.count'', AInt (requests_count w ''catalog'' + 1))] k"
  using assms
  by (simp add: course_catalog_def time_time_def last_span_start case_prod_span span_attr_result
      Let_def catalog_rendered_span increment_def early_key_def split: sum.splits)

lemma add_course_attr:
  assumes "early_key k"
  shows "span_attr (last_span (snd (add_course rq w))) k =
     map_of [(''http.method'', AStr (request_method rq)), (''http.url'', AStr (url rq)),
             (''user.ip'', AStr (remote_addr rq)),
             (''requests.count'', AInt (requests_count w ''add_course'' + 1))] k"
  using assms
  by (simp add: add_course_def time_time_def last_span_start case_prod_span span_attr_result
      Let_def add_validation_failed_span add_saved_span increment_def early_key_def
      split: sum.splits prod.splits)

lemma course_details_attr:
  assumes "early_key k"
  shows "span_attr (last_span (snd (course_details c rq w))) k =
     map_of [(''http.method'', AStr (request_method rq)), (''http.url'', AStr (url rq)),
             (''user.ip'', AStr (remote_addr rq)), (''course_code'', AStr c)] k"
  using assms
  by (simp add: course_details_def time_time_def last_span_start case_prod_span span_attr_result
      Let_def details_not_found_span details_found_span early_key_def
      split: sum.splits option.splits)

lemma manual_trace_attr:
  "span_attr (last_span (snd (manual_trace rq w))) k =
     map_of [(''http.method'', AStr (request_method rq)), (''http.url'', AStr (url rq))] k"
  by (simp add: manual_trace_def last_span_start Let_def)

subsection \<open>Log records and closed spans\<close>

lemma appended_one_snoc [simp]: "appended_one xs (xs @ [y])"
  by (simp add: appended_one_def)

lemma appended_one_same [simp]: "\<not> appended_one xs xs"
  by (simp add: appended_one_def)

lemma start_span_logs:
  "app_log (snd (start_as_current_span nm kd body w)) =
     app_log (snd (snd (body \<lparr>span_name = nm, kind = kd, attributes = [], events = []\<rparr> w)))"
  by (simp add: start_as_current_span_def split: prod.splits)

lemma start_span_spans:
  "appended_one
     (finished_spans (snd (snd (body \<lparr>span_name = nm, kind = kd, attributes = [], events = []\<rparr> w))))
     (finished_spans (snd (start_as_current_span nm kd body w)))"
  by (simp add: start_as_current_span_def split: prod.splits)

lemma course_catalog_telemetry:
  assumes "fst (course_catalog rq w) = Inr r"
  shows "appended_one (app_log w) (app_log (snd (course_catalog rq w)))"
    and "appended_one (finished_spans w) (finished_spans (snd (course_catalog rq w)))"
    and "span_attr (last_span (snd (course_catalog rq w))) ''processing_time''
           = Some (AFloat (clock w (Suc (ticks w)) - clock w (ticks w)))"
proof -
  from assms obtain cs n where ld: "load_courses w = Inr cs" and ln: "py_len cs = Inr n"
    by (auto simp: course_catalog_def fst_start_as_current_span time_time_def Let_def
        split: sum.splits)
  show "appended_one (app_log w) (app_log (snd (course_catalog rq w)))"
    using ld ln
    by (simp add: course_catalog_def start_span_logs time_time_def Let_def catalog_rendered_def
        logger_log_def)
  have "finished_spans (snd (course_catalog rq w)) = finished_spans w @ [last_span (snd (course_catalog rq w))]"
    using ld ln
    by (simp add: course_catalog_def start_as_current_span_def time_time_def Let_def
        catalog_rendered_def logger_log_def last_span_def)
  then show "appended_one (finished_spans w) (finished_spans (snd (course_catalog rq w)))"
    by (metis appended_one_snoc)
  show "span_attr (last_span (snd (course_catalog rq w))) ''processing_time''
           = Some (AFloat (clock w (Suc (ticks w)) - clock w (ticks w)))"
    using ld ln
    by (simp add: course_catalog_def last_span_start time_time_def Let_def catalog_rendered_def)
qed

lemma delete_course_silent:
  "app_log (snd (delete_course c w)) = app_log w
   \<and> finished_spans (snd (delete_course c w)) = finished_spans w"
  by (simp add: delete_course_def dump_courses_def flash_def split: sum.splits)

lemma manual_trace_telemetry:
  "app_log (snd (manual_trace rq w)) = app_log w
   \<and> appended_one (finished_spans w) (finished_spans (snd (manual_trace rq w)))"
  by (simp add: manual_trace_def start_as_current_span_def Let_def)

lemma add_course_get_telemetry:
  assumes "request_method rq \<noteq> ''POST''"
  shows "app_log (snd (add_course rq w)) = app_log w
   \<and> appended_one (finished_spans w) (finished_spans (snd (add_course rq w)))"
  using assms
  by (simp add: add_course_def start_as_current_span_def time_time_def Let_def)

lemma add_course_invalid_telemetry:
  assumes "request_method rq = ''POST''"
    and "field_missing rq ''code'' \<or> field_missing rq ''name'' \<or> field_missing rq ''instructor''"
  shows "appended_one (app_log w) (app_log (snd (add_course rq w)))
    \<and> appended_one (finished_spans w) (finished_spans (snd (add_course rq w)))
    \<and> span_attr (last_span (snd (add_course rq w))) ''processing_time'' = None"
  by (simp add: add_course_invalid [OF assms] last_span_def span_attr_def)

lemma add_course_saved_telemetry:
  assumes post: "request_method rq = ''POST''"
    and nm: "\<not> (field_missing rq ''code'' \<or> field_missing rq ''name'' \<or> field_missing rq ''instructor'')"
    and ok: "fst (add_course rq w) = Inr r"
  shows "appended_one (app_log w) (app_log (snd (add_course rq w)))
    \<and> appended_one (finished_spans w) (finished_spans (snd (add_course rq w)))
    \<and> span_attr (last_span (snd (add_course rq w))) ''processing_time''
         = Some (AFloat (clock w (Suc (ticks w)) - clock w (ticks w)))"
proof -
  let ?w1 = "w\<lparr>ticks := Suc (ticks w), requests_count := increment ''add_course'' (requests_count w)\<rparr>"
  let ?c = "course_of_form rq"
  from nm have v: "\<not> py_not_field ?c ''code''" "\<not> py_not_field ?c ''name''"
    "\<not> py_not_field ?c ''instructor''"
    by (simp_all add: py_not_field_course field_missing_iff)
  obtain res w2 where sv: "save_courses (JObj ?c) ?w1 = (res, w2)" by (cases "save_courses (JObj ?c) ?w1")
  from save_courses_fields [of "JObj ?c" ?w1] sv
  have fr: "app_log w2 = app_log w" "finished_spans w2 = finished_spans w"
    "clock w2 = clock w" "ticks w2 = Suc (ticks w)" by simp_all
  from ok post v sv obtain u where res: "res = Inr u"
    by (cases res)
       (simp_all add: add_course_def fst_start_as_current_span time_time_def Let_def)
  show ?thesis
    using post v sv res fr
    by (simp add: add_course_def start_as_current_span_def time_time_def Let_def add_saved_def
        logger_log_def flash_def last_span_def span_attr_def set_attribute_def add_event_def)
qed

lemma details_not_found_telemetry:
  "details_not_found c sp w = (res, sp', w') \<Longrightarrow>
   res = Inr (Redirect ''/catalog'') \<and> app_log w' = app_log w @ [\<lparr>level = ERROR,
       message = [(''event'', AStr ''Course Not Found''), (''route'', AStr ''/course/<code>''),
                  (''course_code'', AStr c)]\<rparr>]
   \<and> finished_spans w' = finished_spans w
   \<and> span_attr sp' ''processing_time'' = span_attr sp ''processing_time''
   \<and> span_attr sp' ''error_count'' = Some (AInt (error_count w ''course_details'' + 1))"
  by (auto simp: details_not_found_def Let_def logger_log_def flash_def increment_def)

lemma details_found_telemetry:
  "details_found st course sp w = (Inr r, sp', w') \<Longrightarrow>
   r = Template ''course_details.html'' [(''course'', course)]
   \<and> appended_one (app_log w) (app_log w')
   \<and> finished_spans w' = finished_spans w
   \<and> span_attr sp' ''processing_time'' = Some (AFloat (clock w (ticks w) - st))"
  by (auto simp: details_found_def Let_def logger_log_def time_time_def split: sum.splits)

lemma course_details_telemetry:
  assumes ok: "fst (course_details c rq w) = Inr r"
  shows "appended_one (app_log w) (app_log (snd (course_details c rq w)))
    \<and> appended_one (finished_spans w) (finished_spans (snd (course_details c rq w)))
    \<and> span_attr (last_span (snd (course_details c rq w))) ''processing_time''
        = (if r = Redirect ''/catalog'' then None
           else Some (AFloat (clock w (Suc (ticks w)) - clock w (ticks w))))
    \<and> (r = Redirect ''/catalog'' \<longrightarrow>
         span_attr (last_span (snd (course_details c rq w))) ''error_count''
           = Some (AInt (error_count w ''course_details'' + 1)))"
proof -
  let ?w1 = "w\<lparr>ticks := Suc (ticks w)\<rparr>"
  let ?sp4 = "set_attribute ''course_code'' (AStr c)
     (set_attribute ''user.ip'' (AStr (remote_addr rq))
       (set_attribute ''http.url'' (AStr (url rq))
         (set_attribute ''http.method'' (AStr (request_method rq))
           \<lparr>span_name = ''view-course-details'', kind = INTERNAL, attributes = [], events = []\<rparr>)))"
  from ok obtain cs items found where ld: "load_courses w = Inr cs"
    and it: "py_iter cs = Inr items" and nx: "next_with_code c items = Inr found"
    by (auto simp: course_details_def fst_start_as_current_span time_time_def Let_def
        split: sum.splits)
  have sp4: "span_attr ?sp4 ''processing_time'' = None" by simp
  show ?thesis
  proof (cases "case found of None \<Rightarrow> True | Some course \<Rightarrow> \<not> py_truthy course")
    case True
    obtain res sp' w' where nf: "details_not_found c ?sp4 ?w1 = (res, sp', w')"
      by (cases "details_not_found c ?sp4 ?w1")
    from details_not_found_telemetry [OF nf] sp4
    have t: "res = Inr (Redirect ''/catalog'')" "appended_one (app_log w) (app_log w')"
      "finished_spans w' = finished_spans w" "span_attr sp' ''processing_time'' = None"
      "span_attr sp' ''error_count'' = Some (AInt (error_count w ''course_details'' + 1))"
      by simp_all
    have eq: "course_details c rq w = (res, w'\<lparr>finished_spans := finished_spans w' @ [sp']\<rparr>)"
      using ld it nx True nf t(1)
      by (simp add: course_details_def start_as_current_span_def time_time_def Let_def
          split: option.splits)
    with ok t(1) have "r = Redirect ''/catalog''" by simp
    with t show ?thesis by (simp add: eq last_span_def)
  next
    case False
    then obtain course where f: "found = Some course" and tr: "py_truthy course"
      by (cases found) auto
    obtain res sp' w' where df: "details_found (clock w (ticks w)) course ?sp4 ?w1 = (res, sp', w')"
      by (cases "details_found (clock w (ticks w)) course ?sp4 ?w1")
    have eq: "course_details c rq w =
        (res, w'\<lparr>finished_spans := finished_spans w' @
                   [case res of Inl e \<Rightarrow> add_event ''exception'' sp' | Inr r \<Rightarrow> sp']\<rparr>)"
      using ld it nx f tr df
      by (simp add: course_details_def start_as_current_span_def time_time_def Let_def)
    with ok have res: "res = Inr r" by simp
    from details_found_telemetry [OF df [unfolded res]]
    have t: "r = Template ''course_details.html'' [(''course'', course)]"
      "appended_one (app_log w) (app_log w')" "finished_spans w' = finished_spans w"
      "span_attr sp' ''processing_time'' = Some (AFloat (clock w (Suc (ticks w)) - clock w (ticks w)))"
      by simp_all
    then show ?thesis by (simp add: eq res last_span_def)
  qed
qed

lemma add_course_post_response:
  assumes post: "request_method rq = ''POST''" and ok: "fst (add_course rq w) = Inr r"
  shows "r = (if field_missing rq ''code'' \<or> field_missing rq ''name'' \<or> field_missing rq ''instructor''
              then Template ''add_course.html'' [] else Redirect ''/catalog'')"
proof (cases "field_missing rq ''code'' \<or> field_missing rq ''name'' \<or> field_missing rq ''instructor''")
  case True
  with ok add_course_invalid [OF post True, of w] show ?thesis by simp
next
  case False
  let ?w1 = "w\<lparr>ticks := Suc (ticks w), requests_count := increment ''add_course'' (requests_count w)\<rparr>"
  let ?c = "course_of_form rq"
  from False have v: "\<not> py_not_field ?c ''code''" "\<not> py_not_field ?c ''name''"
    "\<not> py_not_field ?c ''instructor''"
    by (simp_all add: py_not_field_course field_missing_iff)
  obtain res w2 where sv: "save_courses (JObj ?c) ?w1 = (res, w2)" by (cases "save_courses (JObj ?c) ?w1")
  from ok post v sv have "r = Redirect ''/catalog''"
    by (cases res)
       (simp_all add: add_course_def fst_start_as_current_span time_time_def Let_def add_saved_def)
  with False show ?thesis by simp
qed

lemma elapsed_nonneg_if:
  "span_attr sp ''processing_time'' = Some (AFloat (b - a)) \<Longrightarrow> a \<le> b \<Longrightarrow> elapsed_nonneg sp"
  by (simp add: elapsed_nonneg_def)

subsection \<open>The sample states\<close>

lemma load_w_two: "load_courses w_two = Inr (JArr [cs101, ma102, cs101])"
  unfolding w_two_def by (rule load_after_dump) (simp add: cs101_def ma102_def)

lemma w_two_has_code: "list_all has_code [cs101, ma102, cs101]"
  by (simp add: has_code_def code_of_def cs101_def ma102_def)

lemma w_two_clock: "clock_monotone w_two"
  by (simp add: clock_monotone_def w_two_def w_init_def)

lemma rq_post_valid:
  "request_method rq_post = ''POST''"
  "\<not> field_missing rq_post ''code''" "\<not> field_missing rq_post ''name''"
  "\<not> field_missing rq_post ''instructor''"
  by (simp_all add: rq_post_def field_missing_def is_space_def)

lemma rq_blank_invalid:
  "request_method rq_blank = ''POST''"
  "field_missing rq_blank ''code'' \<or> field_missing rq_blank ''name'' \<or> field_missing rq_blank ''instructor''"
  by (simp_all add: rq_blank_def field_missing_def is_space_def)

lemma course_of_form_rq_post: "JObj (course_of_form rq_post) = cs101"
  by (simp add: course_of_form_def rq_post_def form_get_def strip_def is_space_def cs101_def)

section \<open>The claims\<close>

text \<open>
  Claim C1. Starting from a state in which the course file does not exist, any sequence of
  \<open>save_courses\<close> calls run one after the other succeeds, and \<open>load_courses\<close>
  afterwards returns exactly the appended records, in the order in which they were appended.
\<close>
theorem C1_append_order:
  assumes "course_file w = NoFile" and "wf_json_list rs"
  shows "fst (append_sequentially rs w) = Inr ()
         \<and> load_courses (snd (append_sequentially rs w)) = Inr (JArr rs)"
proof -
  from assms(1) have "load_courses w = Inr (JArr [])"
    by (simp add: load_courses_def os_path_exists_def)
  from append_sequentially_from [OF this assms(2)] show ?thesis by simp
qed

theorem C1_append_order_witness:
  "fst (append_sequentially [cs101, ma102] w_init) = Inr ()
   \<and> load_courses (snd (append_sequentially [cs101, ma102] w_init)) = Inr (JArr [cs101, ma102])"
  using C1_append_order [of w_init "[cs101, ma102]"]
  by (simp add: w_init_def cs101_def ma102_def)

text \<open>
  Claim C2. For every stored collection and every code \<open>c\<close>, \<open>delete_course c\<close>
  succeeds and leaves in storage exactly the records whose code differs from \<open>c\<close>,
  unchanged and in their original relative order: every record with code \<open>c\<close> is gone.
\<close>
theorem C2_delete_removes_matches:
  assumes "load_courses w = Inr (JArr cs)" and "list_all has_code cs"
  shows "fst (delete_course c w) = Inr (Redirect ''/catalog'')
         \<and> load_courses (snd (delete_course c w))
             = Inr (JArr (filter (\<lambda>x. code_of x \<noteq> Some (JStr c)) cs))"
  using assms by (rule delete_course_load)

theorem C2_delete_removes_matches_witness:
  "fst (delete_course ''CS101'' w_two) = Inr (Redirect ''/catalog'')
   \<and> load_courses (snd (delete_course ''CS101'' w_two)) = Inr (JArr [ma102])"
  using C2_delete_removes_matches [OF load_w_two, of "''CS101''"]
  by (simp add: has_code_def code_of_def cs101_def ma102_def)

text \<open>
  Claim C3. The add operation is the POST branch of \<open>add_course\<close> (a GET only shows the
  empty form). A submission in which the code, the name or the instructor is missing (not
  sent, empty or made of whitespace only) fails validation: the form is shown again with
  the error message flashed and a warning logged, the course file is left as it was, and the
  error counter of the add operation grows by exactly one.
\<close>
theorem C3_missing_required_field:
  assumes "request_method rq = ''POST''"
    and "field_missing rq ''code'' \<or> field_missing rq ''name'' \<or> field_missing rq ''instructor''"
  shows "fst (add_course rq w) = Inr (Template ''add_course.html'' [])
    \<and> flashes (snd (add_course rq w))
        = flashes w @ [(''Course Code, Course Name and Instructor are required!'', ''error'')]
    \<and> map level (drop (length (app_log w)) (app_log (snd (add_course rq w)))) = [WARNING]
    \<and> course_file (snd (add_course rq w)) = course_file w
    \<and> error_count (snd (add_course rq w)) ''add_course'' = error_count w ''add_course'' + 1"
  by (simp add: add_course_invalid [OF assms] increment_def)

theorem C3_missing_required_field_witness:
  "fst (add_course rq_blank w_two) = Inr (Template ''add_course.html'' [])
    \<and> flashes (snd (add_course rq_blank w_two))
        = flashes w_two @ [(''Course Code, Course Name and Instructor are required!'', ''error'')]
    \<and> map level (drop (length (app_log w_two)) (app_log (snd (add_course rq_blank w_two)))) = [WARNING]
    \<and> course_file (snd (add_course rq_blank w_two)) = course_file w_two
    \<and> error_count (snd (add_course rq_blank w_two)) ''add_course'' = error_count w_two ''add_course'' + 1"
  using C3_missing_required_field [of rq_blank w_two]
  by (simp add: rq_blank_def field_missing_def is_space_def)

text \<open>
  Claim C4, as amended. The claim reads: every operation, whether it succeeds or fails, produces
  exactly one log record and exactly one closed span, and that span carries a non-negative
  elapsed-time attribute when it closes. The code does less. What holds is this.
  \<^item> \<open>course_catalog\<close>, \<open>add_course\<close> on a POST and \<open>course_details\<close>, whenever
    they return a response, append exactly one log record and close exactly one span.
  \<^item> On their success paths (catalog rendered, course saved, details rendered) the span carries
    \<open>processing_time\<close>, the difference of two clock readings, which is non-negative when the
    clock does not run backwards.
\<close>
theorem C4_instrumented_paths:
  assumes mono: "clock_monotone w"
  shows "(\<forall>r. fst (course_catalog rq w) = Inr r \<longrightarrow>
            one_log_one_timed_span w (snd (course_catalog rq w)))
    \<and> (\<forall>r. request_method rq = ''POST'' \<longrightarrow> fst (add_course rq w) = Inr r \<longrightarrow>
            appended_one (app_log w) (app_log (snd (add_course rq w)))
            \<and> appended_one (finished_spans w) (finished_spans (snd (add_course rq w)))
            \<and> (r = Redirect ''/catalog'' \<longrightarrow> elapsed_nonneg (last_span (snd (add_course rq w)))))
    \<and> (\<forall>r. fst (course_details c rq w) = Inr r \<longrightarrow>
            appended_one (app_log w) (app_log (snd (course_details c rq w)))
            \<and> appended_one (finished_spans w) (finished_spans (snd (course_details c rq w)))
            \<and> (r \<noteq> Redirect ''/catalog'' \<longrightarrow>
                 elapsed_nonneg (last_span (snd (course_details c rq w)))))"
proof -
  from mono have le: "clock w (ticks w) \<le> clock w (Suc (ticks w))"
    by (simp add: clock_monotone_def)
  have cat: "\<forall>r. fst (course_catalog rq w) = Inr r \<longrightarrow>
            one_log_one_timed_span w (snd (course_catalog rq w))"
    using course_catalog_telemetry [of rq w] elapsed_nonneg_if [OF _ le]
    by (simp add: one_log_one_timed_span_def)
  have add: "\<forall>r. request_method rq = ''POST'' \<longrightarrow> fst (add_course rq w) = Inr r \<longrightarrow>
            appended_one (app_log w) (app_log (snd (add_course rq w)))
            \<and> appended_one (finished_spans w) (finished_spans (snd (add_course rq w)))
            \<and> (r = Redirect ''/catalog'' \<longrightarrow> elapsed_nonneg (last_span (snd (add_course rq w))))"
  proof (intro allI impI)
    fix r
    assume post: "request_method rq = ''POST''" and ok: "fst (add_course rq w) = Inr r"
    note resp = add_course_post_response [OF post ok]
    show "appended_one (app_log w) (app_log (snd (add_course rq w)))
        \<and> appended_one (finished_spans w) (finished_spans (snd (add_course rq w)))
        \<and> (r = Redirect ''/catalog'' \<longrightarrow> elapsed_nonneg (last_span (snd (add_course rq w))))"
    proof (cases "field_missing rq ''code'' \<or> field_missing rq ''name'' \<or> field_missing rq ''instructor''")
      case True
      with resp have "r \<noteq> Redirect ''/catalog''" by simp
      with add_course_invalid_telemetry [OF post True] show ?thesis by blast
    next
      case False
      from add_course_saved_telemetry [OF post False ok] elapsed_nonneg_if [OF _ le]
      show ?thesis by blast
    qed
  qed
  have det: "\<forall>r. fst (course_details c rq w) = Inr r \<longrightarrow>
            appended_one (app_log w) (app_log (snd (course_details c rq w)))
            \<and> appended_one (finished_spans w) (finished_spans (snd (course_details c rq w)))
            \<and> (r \<noteq> Redirect ''/catalog'' \<longrightarrow>
                 elapsed_nonneg (last_span (snd (course_details c rq w))))"
  proof (intro allI impI)
    fix r
    assume ok: "fst (course_details c rq w) = Inr r"
    from course_details_telemetry [OF ok] elapsed_nonneg_if [OF _ le]
    show "appended_one (app_log w) (app_log (snd (course_details c rq w)))
            \<and> appended_one (finished_spans w) (finished_spans (snd (course_details c rq w)))
            \<and> (r \<noteq> Redirect ''/catalog'' \<longrightarrow>
                 elapsed_nonneg (last_span (snd (course_details c rq w))))"
      by (cases "r = Redirect ''/catalog''") simp_all
  qed
  from cat add det show ?thesis by blast
qed

theorem C4_instrumented_paths_witness:
  "one_log_one_timed_span w_two (snd (course_catalog rq_get w_two))
   \<and> appended_one (app_log w_two) (app_log (snd (add_course rq_post w_two)))
   \<and> appended_one (finished_spans w_two) (finished_spans (snd (add_course rq_post w_two)))
   \<and> elapsed_nonneg (last_span (snd (add_course rq_post w_two)))
   \<and> appended_one (app_log w_two) (app_log (snd (add_course rq_blank w_two)))
   \<and> appended_one (finished_spans w_two) (finished_spans (snd (add_course rq_blank w_two)))
   \<and> appended_one (app_log w_two) (app_log (snd (course_details ''CS101'' rq_get w_two)))
   \<and> elapsed_nonneg (last_span (snd (course_details ''CS101'' rq_get w_two)))
   \<and> appended_one (app_log w_two) (app_log (snd (course_details ''PH300'' rq_get w_two)))"
proof -
  have a: "fst (course_catalog rq_get w_two)
      = Inr (Template ''course_catalog.html'' [(''courses'', JArr [cs101, ma102, cs101])])"
    by (rule course_catalog_response [OF load_w_two])
  have b: "fst (add_course rq_post w_two) = Inr (Redirect ''/catalog'')"
    using add_course_valid_file [OF rq_post_valid load_w_two] by simp
  have c: "fst (add_course rq_blank w_two) = Inr (Template ''add_course.html'' [])"
    by (simp add: add_course_invalid [OF rq_blank_invalid])
  have d: "fst (course_details ''CS101'' rq_get w_two)
      = Inr (Template ''course_details.html'' [(''course'', cs101)])"
    by (simp add: course_details_response [OF load_w_two w_two_has_code] code_of_def cs101_def)
  have e: "fst (course_details ''PH300'' rq_get w_two) = Inr (Redirect ''/catalog'')"
    by (simp add: course_details_response [OF load_w_two w_two_has_code] code_of_def
        cs101_def ma102_def)
  from C4_instrumented_paths [OF w_two_clock, of rq_get "''CS101''"] a d
  have 1: "one_log_one_timed_span w_two (snd (course_catalog rq_get w_two))"
    "appended_one (app_log w_two) (app_log (snd (course_details ''CS101'' rq_get w_two)))"
    "elapsed_nonneg (last_span (snd (course_details ''CS101'' rq_get w_two)))"
    by simp_all
  from C4_instrumented_paths [OF w_two_clock, of rq_post "''CS101''"] b rq_post_valid(1)
  have 2: "appended_one (app_log w_two) (app_log (snd (add_course rq_post w_two)))"
    "appended_one (finished_spans w_two) (finished_spans (snd (add_course rq_post w_two)))"
    "elapsed_nonneg (last_span (snd (add_course rq_post w_two)))"
    by simp_all
  from C4_instrumented_paths [OF w_two_clock, of rq_blank "''CS101''"] c rq_blank_invalid(1)
  have 3: "appended_one (app_log w_two) (app_log (snd (add_course rq_blank w_two)))"
    "appended_one (finished_spans w_two) (finished_spans (snd (add_course rq_blank w_two)))"
    by simp_all
  from C4_instrumented_paths [OF w_two_clock, of rq_get "''PH300''"] e
  have 4: "appended_one (app_log w_two) (app_log (snd (course_details ''PH300'' rq_get w_two)))"
    by simp
  from 1 2 3 4 show ?thesis by simp
qed

text \<open>
  Claim C4 as stated fails for \<open>delete_course\<close>: deleting \<open>CS101\<close> from the sample
  store succeeds, yet no log record is written and no span is closed.
\<close>
theorem C4_delete_course_counterexample:
  "\<not> one_log_one_timed_span w_two (snd (delete_course ''CS101'' w_two))"
  by (simp add: one_log_one_timed_span_def delete_course_silent)

text \<open>
  Claim C5. When the course file does not exist, \<open>load_courses\<close> returns the empty
  list and does not fail. It fails only when the file exists and either cannot be opened
  (\<open>OSError\<close>) or holds text that the decoder rejects (\<open>JSONDecodeError\<close>).
\<close>
theorem C5_load_courses_failure:
  "(course_file w = NoFile \<longrightarrow> load_courses w = Inr (JArr []))
   \<and> (load_courses w = Inl e \<longrightarrow>
        (e = OSError \<and> course_file w = Unopenable)
        \<or> (e = JSONDecodeError \<and> (\<exists>s. course_file w = Contents s \<and> json_loads s = None)))"
  by (cases "course_file w")
     (auto simp: load_courses_def os_path_exists_def open_read_def json_load_def
           split: option.splits)

theorem C5_load_courses_failure_witness:
  "load_courses w_init = Inr (JArr [])
   \<and> load_courses (w_init\<lparr>course_file := Contents ''{''\<rparr>) = Inl JSONDecodeError
   \<and> json_loads ''{'' = None"
proof -
  have a: "course_file w_init = NoFile" by (simp add: w_init_def)
  have b: "load_courses (w_init\<lparr>course_file := Contents ''{''\<rparr>) = Inl JSONDecodeError"
    by (simp add: load_courses_def os_path_exists_def open_read_def json_load_def json_loads_def
        skip_ws_def is_json_ws_def)
  from C5_load_courses_failure [of w_init] a
    C5_load_courses_failure [of "w_init\<lparr>course_file := Contents ''{''\<rparr>" JSONDecodeError] b
  show ?thesis by simp
qed

text \<open>
  Claim C6. Writing a sequence of records with \<open>dump_courses\<close> (the whole-file write
  of lines 147-148, the replace-all operation) and then calling \<open>load_courses\<close>
  returns a list equal to the one written: encoding and then decoding is the identity.
\<close>
theorem C6_dump_load_roundtrip:
  assumes "course_file w \<noteq> Unopenable" and "wf_json_list cs"
  shows "fst (dump_courses (JArr cs) w) = Inr ()
         \<and> load_courses (snd (dump_courses (JArr cs) w)) = Inr (JArr cs)"
  using assms by (simp add: dump_courses_ok load_after_dump)

theorem C6_dump_load_roundtrip_witness:
  "fst (dump_courses (JArr [cs101, ma102]) w_init) = Inr ()
   \<and> load_courses (snd (dump_courses (JArr [cs101, ma102]) w_init)) = Inr (JArr [cs101, ma102])"
  using C6_dump_load_roundtrip [of w_init "[cs101, ma102]"]
  by (simp add: w_init_def cs101_def ma102_def)

text \<open>
  Claim C7. When no stored record has code \<open>c\<close>, \<open>delete_course c\<close> still
  completes with the redirect to the catalog, and the stored collection read back by
  \<open>load_courses\<close> is the same as before.
\<close>
theorem C7_delete_absent_code:
  assumes "load_courses w = Inr (JArr cs)" and "list_all has_code cs"
    and "\<forall>x \<in> set cs. code_of x \<noteq> Some (JStr c)"
  shows "fst (delete_course c w) = Inr (Redirect ''/catalog'')
         \<and> load_courses (snd (delete_course c w)) = Inr (JArr cs)"
proof -
  from assms(3) have "filter (\<lambda>x. code_of x \<noteq> Some (JStr c)) cs = cs"
    by (simp add: filter_id_conv)
  with delete_course_load [OF assms(1,2), of c] show ?thesis by simp
qed

theorem C7_delete_absent_code_witness:
  "fst (delete_course ''PH300'' w_two) = Inr (Redirect ''/catalog'')
   \<and> load_courses (snd (delete_course ''PH300'' w_two)) = Inr (JArr [cs101, ma102, cs101])"
  using C7_delete_absent_code [OF load_w_two, of "''PH300''"]
  by (simp add: has_code_def code_of_def cs101_def ma102_def)

text \<open>
  Claim C8. \<open>course_details c\<close> scans the result of \<open>load_courses\<close> from the
  front and renders the first record whose code equals \<open>c\<close>; when no record matches it
  reports not-found by redirecting to the catalog. With duplicate codes the earliest match wins.
\<close>
theorem C8_first_match:
  assumes "load_courses w = Inr (JArr cs)" and "list_all has_code cs"
  shows "fst (course_details c rq w) =
           Inr (case find (\<lambda>x. code_of x = Some (JStr c)) cs of
                  Some x \<Rightarrow> Template ''course_details.html'' [(''course'', x)]
                | None \<Rightarrow> Redirect ''/catalog'')"
  using assms by (rule course_details_response)

theorem C8_first_match_witness:
  "fst (course_details ''CS101'' rq_get w_two)
     = Inr (Template ''course_details.html'' [(''course'', cs101)])
   \<and> fst (course_details ''PH300'' rq_get w_two) = Inr (Redirect ''/catalog'')"
  using C8_first_match [OF load_w_two, of "''CS101''" rq_get]
    C8_first_match [OF load_w_two, of "''PH300''" rq_get]
  by (simp add: has_code_def code_of_def cs101_def ma102_def)

text \<open>
  Claim C9, as amended. The claim reads: every instrumented operation records the request
  method, the URL, the caller address and its slice of the request and error counters on its
  span. What holds, on every path through each handler, is this.
  \<^item> \<open>course_catalog\<close> and \<open>add_course\<close> record \<open>http.method\<close>, \<open>http.url\<close>,
    \<open>user.ip\<close> and \<open>requests.count\<close>, the value of their own request counter after the
    increment.
  \<^item> \<open>course_details\<close> records \<open>http.method\<close>, \<open>http.url\<close> and \<open>user.ip\<close>.
  \<^item> \<open>manual_trace\<close> records \<open>http.method\<close> and \<open>http.url\<close>.
  \<^item> On the validation-failure path \<open>add_course\<close> also records \<open>error_count\<close>, and on
    the not-found path so does \<open>course_details\<close>: the handler's own error counter after the
    increment.
\<close>
theorem C9_span_attributes:
  "span_attr (last_span (snd (course_catalog rq w))) ''http.method'' = Some (AStr (request_method rq))
   \<and> span_attr (last_span (snd (course_catalog rq w))) ''http.url'' = Some (AStr (url rq))
   \<and> span_attr (last_span (snd (course_catalog rq w))) ''user.ip'' = Some (AStr (remote_addr rq))
   \<and> span_attr (last_span (snd (course_catalog rq w))) ''requests.count''
       = Some (AInt (requests_count w ''catalog'' + 1))
   \<and> span_attr (last_span (snd (add_course rq w))) ''http.method'' = Some (AStr (request_method rq))
   \<and> span_attr (last_span (snd (add_course rq w))) ''http.url'' = Some (AStr (url rq))
   \<and> span_attr (last_span (snd (add_course rq w))) ''user.ip'' = Some (AStr (remote_addr rq))
   \<and> span_attr (last_span (snd (add_course rq w))) ''requests.count''
       = Some (AInt (requests_count w ''add_course'' + 1))
   \<and> (request_method rq = ''POST'' \<longrightarrow> fst (add_course rq w) = Inr (Template ''add_course.html'' []) \<longrightarrow>
        span_attr (last_span (snd (add_course rq w))) ''error_count''
          = Some (AInt (error_count w ''add_course'' + 1)))
   \<and> span_attr (last_span (snd (course_details c rq w))) ''http.method'' = Some (AStr (request_method rq))
   \<and> span_attr (last_span (snd (course_details c rq w))) ''http.url'' = Some (AStr (url rq))
   \<and> span_attr (last_span (snd (course_details c rq w))) ''user.ip'' = Some (AStr (remote_addr rq))
   \<and> (fst (course_details c rq w) = Inr (Redirect ''/catalog'') \<longrightarrow>
        span_attr (last_span (snd (course_details c rq w))) ''error_count''
          = Some (AInt (error_count w ''course_details'' + 1)))
   \<and> span_attr (last_span (snd (manual_trace rq w))) ''http.method'' = Some (AStr (request_method rq))
   \<and> span_attr (last_span (snd (manual_trace rq w))) ''http.url'' = Some (AStr (url rq))"
proof -
  have k: "early_key ''http.method''" "early_key ''http.url''" "early_key ''user.ip''"
    "early_key ''requests.count''"
    by (simp_all add: early_key_def)
  have early: "span_attr (last_span (snd (course_catalog rq w))) ''http.method'' = Some (AStr (request_method rq))
   \<and> span_attr (last_span (snd (course_catalog rq w))) ''http.url'' = Some (AStr (url rq))
   \<and> span_attr (last_span (snd (course_catalog rq w))) ''user.ip'' = Some (AStr (remote_addr rq))
   \<and> span_attr (last_span (snd (course_catalog rq w))) ''requests.count''
       = Some (AInt (requests_count w ''catalog'' + 1))
   \<and> span_attr (last_span (snd (add_course rq w))) ''http.method'' = Some (AStr (request_method rq))
   \<and> span_attr (last_span (snd (add_course rq w))) ''http.url'' = Some (AStr (url rq))
   \<and> span_attr (last_span (snd (add_course rq w))) ''user.ip'' = Some (AStr (remote_addr rq))
   \<and> span_attr (last_span (snd (add_course rq w))) ''requests.count''
       = Some (AInt (requests_count w ''add_course'' + 1))
   \<and> span_attr (last_span (snd (course_details c rq w))) ''http.method'' = Some (AStr (request_method rq))
   \<and> span_attr (last_span (snd (course_details c rq w))) ''http.url'' = Some (AStr (url rq))
   \<and> span_attr (last_span (snd (course_details c rq w))) ''user.ip'' = Some (AStr (remote_addr rq))
   \<and> span_attr (last_span (snd (manual_trace rq w))) ''http.method'' = Some (AStr (request_method rq))
   \<and> span_attr (last_span (snd (manual_trace rq w))) ''http.url'' = Some (AStr (url rq))"
    by (simp add: course_catalog_attr [OF k(1)] course_catalog_attr [OF k(2)]
        course_catalog_attr [OF k(3)] course_catalog_attr [OF k(4)]
        add_course_attr [OF k(1)] add_course_attr [OF k(2)]
        add_course_attr [OF k(3)] add_course_attr [OF k(4)]
        course_details_attr [OF k(1)] course_details_attr [OF k(2)]
        course_details_attr [OF k(3)] manual_trace_attr)
  have add_err: "request_method rq = ''POST'' \<longrightarrow> fst (add_course rq w) = Inr (Template ''add_course.html'' []) \<longrightarrow>
        span_attr (last_span (snd (add_course rq w))) ''error_count''
          = Some (AInt (error_count w ''add_course'' + 1))"
  proof (intro impI)
    assume post: "request_method rq = ''POST''"
      and ok: "fst (add_course rq w) = Inr (Template ''add_course.html'' [])"
    from add_course_post_response [OF post ok]
    have m: "field_missing rq ''code'' \<or> field_missing rq ''name'' \<or> field_missing rq ''instructor''"
      by (simp split: if_splits)
    show "span_attr (last_span (snd (add_course rq w))) ''error_count''
          = Some (AInt (error_count w ''add_course'' + 1))"
      by (simp add: add_course_invalid [OF post m] last_span_def span_attr_def)
  qed
  have det_err: "fst (course_details c rq w) = Inr (Redirect ''/catalog'') \<longrightarrow>
        span_attr (last_span (snd (course_details c rq w))) ''error_count''
          = Some (AInt (error_count w ''course_details'' + 1))"
    using course_details_telemetry [of c rq w "Redirect ''/catalog''"] by blast
  from early add_err det_err show ?thesis by blast
qed

theorem C9_span_attributes_witness:
  "span_attr (last_span (snd (course_catalog rq_get w_two))) ''requests.count'' = Some (AInt 1)
   \<and> span_attr (last_span (snd (add_course rq_blank w_two))) ''error_count'' = Some (AInt 1)
   \<and> span_attr (last_span (snd (course_details ''PH300'' rq_get w_two))) ''error_count''
       = Some (AInt 1)
   \<and> span_attr (last_span (snd (manual_trace rq_get w_two))) ''http.method'' = Some (AStr ''GET'')"
proof -
  have c: "fst (add_course rq_blank w_two) = Inr (Template ''add_course.html'' [])"
    by (simp add: add_course_invalid [OF rq_blank_invalid])
  have e: "fst (course_details ''PH300'' rq_get w_two) = Inr (Redirect ''/catalog'')"
    by (simp add: course_details_response [OF load_w_two w_two_has_code] code_of_def
        cs101_def ma102_def)
  have z: "requests_count w_two ''catalog'' = 0" "error_count w_two ''add_course'' = 0"
    "error_count w_two ''course_details'' = 0" "request_method rq_get = ''GET''"
    by (simp_all add: w_two_def w_init_def rq_get_def)
  from C9_span_attributes [of rq_get w_two "''PH300''"] e z
  have 1: "span_attr (last_span (snd (course_catalog rq_get w_two))) ''requests.count'' = Some (AInt 1)"
    "span_attr (last_span (snd (course_details ''PH300'' rq_get w_two))) ''error_count'' = Some (AInt 1)"
    "span_attr (last_span (snd (manual_trace rq_get w_two))) ''http.method'' = Some (AStr ''GET'')"
    by simp_all
  from C9_span_attributes [of rq_blank w_two "''PH300''"] c rq_blank_invalid(1) z
  have 2: "span_attr (last_span (snd (add_course rq_blank w_two))) ''error_count'' = Some (AInt 1)"
    by simp
  from 1 2 show ?thesis by simp
qed

text \<open>
  Claim C9 as stated fails for \<open>manual_trace\<close>: the span it closes has neither the caller
  address nor any counter among its attributes.
\<close>
theorem C9_manual_trace_counterexample:
  "\<not> required_attributes (last_span (snd (manual_trace rq_get w_init)))"
  by (simp add: required_attributes_def manual_trace_attr)

text \<open>
  Claim C10. \<open>add_course\<close> strips leading and trailing whitespace from every form field
  it reads, before validation and before storage. So (1) a required field made of whitespace
  only is treated as missing: the form is shown again and the course file is left as it was;
  (2) a valid submission appends the record of stripped fields; and (3) starting from a state
  without a course file, after any sequence of operations every stored field value is a string
  without leading or trailing whitespace.
\<close>
theorem C10_fields_stripped:
  "(request_method rq = ''POST'' \<longrightarrow>
      (\<exists>k \<in> {''code'', ''name'', ''instructor''}. \<exists>v. map_of (form rq) k = Some v \<and> list_all is_space v) \<longrightarrow>
      fst (add_course rq w) = Inr (Template ''add_course.html'' [])
      \<and> course_file (snd (add_course rq w)) = course_file w)
   \<and> (request_method rq = ''POST'' \<longrightarrow> load_courses w = Inr (JArr cs) \<longrightarrow>
      \<not> (field_missing rq ''code'' \<or> field_missing rq ''name'' \<or> field_missing rq ''instructor'') \<longrightarrow>
      load_courses (snd (add_course rq w)) = Inr (JArr (cs @ [JObj (course_of_form rq)]))
      \<and> (\<forall>kv \<in> set (course_of_form rq). \<exists>s. snd kv = JStr (strip s) \<and> stripped (strip s)))
   \<and> (course_file w = NoFile \<longrightarrow> clean_store (run ops w))"
proof (intro conjI impI)
  assume post: "request_method rq = ''POST''"
    and "\<exists>k \<in> {''code'', ''name'', ''instructor''}. \<exists>v. map_of (form rq) k = Some v \<and> list_all is_space v"
  then have m: "field_missing rq ''code'' \<or> field_missing rq ''name'' \<or> field_missing rq ''instructor''"
    by (auto dest: blank_field_missing)
  show "fst (add_course rq w) = Inr (Template ''add_course.html'' [])"
    by (simp add: add_course_invalid [OF post m])
  show "course_file (snd (add_course rq w)) = course_file w"
    by (simp add: add_course_invalid [OF post m])
next
  assume "request_method rq = ''POST''" "load_courses w = Inr (JArr cs)"
    "\<not> (field_missing rq ''code'' \<or> field_missing rq ''name'' \<or> field_missing rq ''instructor'')"
  then show "load_courses (snd (add_course rq w)) = Inr (JArr (cs @ [JObj (course_of_form rq)]))"
    using add_course_valid_load [of rq w cs] by simp
next
  show "\<forall>kv \<in> set (course_of_form rq). \<exists>s. snd kv = JStr (strip s) \<and> stripped (strip s)"
    by (auto simp: course_of_form_def stripped_strip)
next
  assume "course_file w = NoFile"
  then have "clean_store w" by (simp add: clean_store_def load_courses_def os_path_exists_def)
  then show "clean_store (run ops w)" by (rule run_clean_store)
qed

theorem C10_fields_stripped_witness:
  "fst (add_course rq_blank w_two) = Inr (Template ''add_course.html'' [])
   \<and> course_file (snd (add_course rq_blank w_two)) = course_file w_two
   \<and> load_courses (snd (add_course rq_post w_two)) = Inr (JArr [cs101, ma102, cs101, cs101])
   \<and> clean_store (run [AddCourse rq_post, DeleteCourse ''MA102'', AddCourse rq_blank] w_init)"
proof -
  have bl: "\<exists>k \<in> {''code'', ''name'', ''instructor''}.
      \<exists>v. map_of (form rq_blank) k = Some v \<and> list_all is_space v"
    by (simp add: rq_blank_def is_space_def)
  have nf: "course_file w_init = NoFile" by (simp add: w_init_def)
  from C10_fields_stripped [of rq_blank w_two "[]" "[]"] bl rq_blank_invalid(1)
  have 1: "fst (add_course rq_blank w_two) = Inr (Template ''add_course.html'' [])"
    "course_file (snd (add_course rq_blank w_two)) = course_file w_two" by blast+
  from C10_fields_stripped [of rq_post w_two "[cs101, ma102, cs101]" "[]"] rq_post_valid load_w_two
  have 2: "load_courses (snd (add_course rq_post w_two))
      = Inr (JArr ([cs101, ma102, cs101] @ [JObj (course_of_form rq_post)]))" by blast
  from C10_fields_stripped [of rq_post w_init "[]"
      "[AddCourse rq_post, DeleteCourse ''MA102'', AddCourse rq_blank]"] nf
  have 3: "clean_store (run [AddCourse rq_post, DeleteCourse ''MA102'', AddCourse rq_blank] w_init)"
    by blast
  from 1 2 3 show ?thesis by (simp add: course_of_form_rq_post)
qed

end
